theory Spec2Isabelle
  imports
    Complex_Main
    "HOL-Library.Char_ord"
    "HOL-Library.List_Lexorder"
    "HOL-Library.Log_Nat"
    "HOL-Library.Sublist"
begin

section \<open>Text: the operations of Python's \<open>str\<close> that the server uses\<close>

text \<open>
  Python text is modelled as \<^typ>\<open>string\<close>; a character stands for the code point of the
  same number, so the model covers the code points below 256. \<open>str.isspace\<close> and
  \<open>str.isdigit\<close> are written out for that range as CPython's tables have them.
\<close>

definition py_isspace :: "char \<Rightarrow> bool" where
  "py_isspace c =
     (let n = of_char c :: nat
      in (9 \<le> n \<and> n \<le> 13) \<or> (28 \<le> n \<and> n \<le> 32) \<or> n = 133 \<or> n = 160)"

definition py_isdigit_char :: "char \<Rightarrow> bool" where
  "py_isdigit_char c =
     (let n = of_char c :: nat
      in (48 \<le> n \<and> n \<le> 57) \<or> n = 178 \<or> n = 179 \<or> n = 185)"

text \<open>\<open>s.isdigit()\<close>: every character is a digit and there is at least one.\<close>

definition isdigit :: "string \<Rightarrow> bool" where
  "isdigit s = (s \<noteq> [] \<and> list_all py_isdigit_char s)"

text \<open>\<open>s.strip()\<close>: leading and trailing whitespace removed.\<close>

definition lstrip :: "string \<Rightarrow> string" where
  "lstrip s = dropWhile py_isspace s"

definition rstrip :: "string \<Rightarrow> string" where
  "rstrip s = rev (dropWhile py_isspace (rev s))"

definition strip :: "string \<Rightarrow> string" where
  "strip s = rstrip (lstrip s)"

text \<open>\<open>s.split(sep)\<close> for a one-character separator: \<open>"".split("/")\<close> is \<open>[""]\<close>.\<close>

fun split :: "char \<Rightarrow> string \<Rightarrow> string list" where
  "split sep [] = [[]]"
| "split sep (c # cs) =
     (if c = sep then [] # split sep cs
      else (case split sep cs of
              [] \<Rightarrow> [[c]]
            | p # ps \<Rightarrow> (c # p) # ps))"

text \<open>\<open>s.split(sep, maxsplit)\<close>: at most \<open>maxsplit\<close> cuts, from the left.\<close>

fun splitn :: "char \<Rightarrow> nat \<Rightarrow> string \<Rightarrow> string list" where
  "splitn sep n [] = [[]]"
| "splitn sep 0 (c # cs) = [c # cs]"
| "splitn sep (Suc n) (c # cs) =
     (if c = sep then [] # splitn sep n cs
      else (case splitn sep (Suc n) cs of
              [] \<Rightarrow> [[c]]
            | p # ps \<Rightarrow> (c # p) # ps))"

text \<open>\<open>sep.join(xs)\<close>.\<close>

fun join :: "string \<Rightarrow> string list \<Rightarrow> string" where
  "join sep [] = []"
| "join sep [x] = x"
| "join sep (x # y # ys) = x @ sep @ join sep (y # ys)"

text \<open>\<open>sub in s\<close> on strings: \<open>sub\<close> occurs in \<open>s\<close> as a contiguous substring.\<close>

fun contains :: "string \<Rightarrow> string \<Rightarrow> bool" where
  "contains sub [] = (sub = [])"
| "contains sub (c # cs) = (prefix sub (c # cs) \<or> contains sub cs)"

text \<open>A response is terminated by a newline.\<close>

definition ends_with_newline :: "string \<Rightarrow> bool" where
  "ends_with_newline s = (s \<noteq> [] \<and> last s = CHR ''\<newline>'')"

section \<open>The environment: exceptions, the filesystem, the clock\<close>

text \<open>
  An exception raised by a filesystem call or by a failed unpacking: an instance of a subclass
  of \<open>Exception\<close> (\<open>OSError\<close>, \<open>ValueError\<close>, \<open>UnicodeDecodeError\<close>), carrying the text that
  \<open>str(e)\<close> gives.
\<close>

datatype exc = Exc string

fun exc_str :: "exc \<Rightarrow> string" where
  "exc_str (Exc m) = m"

record stat_result =
  st_size :: nat
  st_mtime :: real

text \<open>
  What the server sees of \<open>pathlib\<close> and of the disk during one call. A path is the string
  \<open>str(path)\<close>, which is also the cache key and all that a system call receives.
  \<^item> \<open>fs_join p name\<close> is \<open>str(p / name)\<close>;
  \<^item> \<open>fs_exists\<close>, \<open>fs_is_dir\<close>, \<open>fs_read_text\<close>, \<open>fs_stat\<close> are the \<open>Path\<close> methods, which return
    or raise;
  \<^item> \<open>fs_scandir p\<close> is the names that \<open>Path.glob\<close> enumerates in \<open>p\<close> before matching
    (none when \<open>p\<close> is not a directory);
  \<^item> \<open>fs_fromtimestamp t\<close> is \<open>str(datetime.datetime.fromtimestamp(t))\<close>, in the local
    time zone.
  A timestamp is the real number that the float of the code stands for.
\<close>

record env =
  fs_join :: "string \<Rightarrow> string \<Rightarrow> string"
  fs_exists :: "string \<Rightarrow> exc + bool"
  fs_is_dir :: "string \<Rightarrow> exc + bool"
  fs_read_text :: "string \<Rightarrow> exc + string"
  fs_stat :: "string \<Rightarrow> exc + stat_result"
  fs_scandir :: "string \<Rightarrow> exc + string list"
  fs_fromtimestamp :: "real \<Rightarrow> exc + string"

section \<open>Floats: the subtraction of two clock readings\<close>

text \<open>
  A Python \<open>float\<close> is an IEEE 754 double: a number with a significand of 53 bits. The
  result of an arithmetic operation is the exact result rounded to the nearest double, to
  the one with an even significand on a tie. The exponent is not bounded here: clock
  readings and their differences are far from overflow, and the difference of two doubles
  that falls below the normal range is a double itself.
  \<^item> \<open>pow2 i\<close> is 2 to the power \<open>i\<close>;
  \<^item> \<open>ilog2 x\<close> is the exponent of \<open>x > 0\<close>, the \<open>k\<close> with \<open>pow2 k \<le> x < pow2 (k + 1)\<close>,
    read off the bit length of the integer part of \<open>x\<close> (of \<open>1 / x\<close> when \<open>x < 1\<close>);
  \<^item> \<open>round_half_even q\<close> is the integer nearest to \<open>q\<close>, the even one on a tie;
  \<^item> \<open>round_pos x\<close>, for \<open>x > 0\<close>, rounds \<open>x\<close> to a multiple of \<open>pow2 (k - 52)\<close>, \<open>k\<close> the
    exponent of \<open>x\<close>;
  \<^item> \<open>round_double x\<close> is the double nearest to \<open>x\<close>.
\<close>

definition pow2 :: "int \<Rightarrow> real" where
  "pow2 i = (if 0 \<le> i then 2 ^ nat i else 1 / 2 ^ nat (- i))"

definition ilog2 :: "real \<Rightarrow> int" where
  "ilog2 x = (if 1 \<le> x then bitlen \<lfloor>x\<rfloor> - 1 else - bitlen (\<lceil>1 / x\<rceil> - 1))"

definition round_half_even :: "real \<Rightarrow> int" where
  "round_half_even q =
     (let f = \<lfloor>q\<rfloor>; d = q - of_int f
      in if d < 1 / 2 then f else if 1 / 2 < d then f + 1 else if even f then f else f + 1)"

definition round_pos :: "real \<Rightarrow> real" where
  "round_pos x =
     of_int (round_half_even (x / pow2 (ilog2 x - 52))) * pow2 (ilog2 x - 52)"

definition round_double :: "real \<Rightarrow> real" where
  "round_double x =
     (if x = 0 then 0 else if 0 < x then round_pos x else - round_pos (- x))"

text \<open>
  \<open>x - y\<close> on floats. A clock reading is kept as the real number that the float stands
  for; \<open>float_sub x y\<close> is what the subtraction of the floats \<open>x\<close> and \<open>y\<close> returns.
\<close>

definition float_sub :: "real \<Rightarrow> real \<Rightarrow> real" where
  "float_sub x y = round_double (x - y)"

text \<open>
  The numbers that are doubles: those that rounding leaves as they are. \<open>dval d\<close> is the
  real number that the double \<open>d\<close> stands for. Every integer of magnitude up to \<open>pow2 53\<close>
  is one, and Python compares a float with such an integer as with the double of the same
  value.
\<close>

typedef double = "{x::real. round_double x = x}"
  morphisms dval Abs_double
  by (rule exI [of _ 0]) (simp add: round_double_def)

setup_lifting type_definition_double

text \<open>The time-to-live that \<open>__init__\<close> sets: 300 seconds.\<close>

lift_definition default_cache_time :: double is 300
  by code_simp

section \<open>The server state and the cached read\<close>

text \<open>
  The attributes of \<open>FingerServer\<close>. The key of the cache is \<open>str(filepath)\<close>; an entry is
  the clock reading at which it was stored and the content. \<open>cache_time\<close> is the
  time-to-live in seconds, an attribute that a caller can set (the repository's test sets
  it to \<open>-1\<close>); it is taken to be a number that is a double.
\<close>

record server =
  plan_dir :: string
  cache :: "string \<rightharpoonup> (real \<times> string)"
  cache_time :: double

definition init_server :: "string \<Rightarrow> server" where
  "init_server d = \<lparr>plan_dir = d, cache = Map.empty, cache_time = default_cache_time\<rparr>"

text \<open>The filesystem calls that \<open>_read_project_file\<close> can make, recorded in the order made.\<close>

datatype fs_call = Exists string | ReadText string

text \<open>
  The \<open>try\<close> block of \<open>_read_project_file\<close>: \<open>filepath.exists()\<close>, then
  \<open>filepath.read_text()\<close>, then the store into the cache. Any exception is caught and the
  function falls through to \<open>return None\<close>.
\<close>

definition load_from_disk ::
  "env \<Rightarrow> real \<Rightarrow> server \<Rightarrow> string \<Rightarrow> fs_call list \<times> string option \<times> server" where
  "load_from_disk e now s filepath =
     (case fs_exists e filepath of
        Inl _ \<Rightarrow> ([Exists filepath], None, s)
      | Inr False \<Rightarrow> ([Exists filepath], None, s)
      | Inr True \<Rightarrow>
          (case fs_read_text e filepath of
             Inl _ \<Rightarrow> ([Exists filepath, ReadText filepath], None, s)
           | Inr content \<Rightarrow>
               ([Exists filepath, ReadText filepath], Some content,
                s\<lparr>cache := (cache s)(filepath \<mapsto> (now, content))\<rparr>)))"

text \<open>
  \<open>_read_project_file\<close> (the same text in both server files). \<open>now\<close> is the clock reading
  taken on entry. The test \<open>now - timestamp < self.cache_time\<close> subtracts two floats, so it
  compares the rounded difference with the time-to-live. The result is the calls made to
  the filesystem, the returned \<open>Optional[str]\<close> and the server afterwards.
\<close>

definition read_project_file ::
  "env \<Rightarrow> real \<Rightarrow> server \<Rightarrow> string \<Rightarrow> fs_call list \<times> string option \<times> server" where
  "read_project_file e now s filepath =
     (case cache s filepath of
        Some (timestamp, content) \<Rightarrow>
          if float_sub now timestamp < dval (cache_time s) then ([], Some content, s)
          else load_from_disk e now s filepath
      | None \<Rightarrow> load_from_disk e now s filepath)"

section \<open>The project catalogue\<close>

text \<open>
  Matching of a name against a \<open>glob\<close> pattern in which \<open>*\<close> is the only special
  character (the server uses the patterns \<open>*\<close> and \<open>*.project\<close>); the comparison is
  case-sensitive, as on POSIX, and a leading dot is matched like any other character, as
  \<open>pathlib\<close> does.
\<close>

fun glob_match :: "string \<Rightarrow> string \<Rightarrow> bool" where
  "glob_match [] name = (name = [])"
| "glob_match (p # ps) [] = (p = CHR ''*'' \<and> glob_match ps [])"
| "glob_match (p # ps) (c # cs) =
     (if p = CHR ''*'' then glob_match ps (c # cs) \<or> glob_match (p # ps) cs
      else c = p \<and> glob_match ps cs)"

text \<open>\<open>d.glob(pattern)\<close> for a pattern without \<open>/\<close>: the names of the matching entries.\<close>

definition glob :: "env \<Rightarrow> string \<Rightarrow> string \<Rightarrow> exc + string list" where
  "glob e d pattern =
     (case fs_scandir e d of
        Inl x \<Rightarrow> Inl x
      | Inr names \<Rightarrow> Inr (filter (glob_match pattern) names))"

text \<open>
  The outer loop of \<open>_list_projects\<close> over the entries of the root, with the list
  \<open>projects\<close> built so far. \<open>is_dir()\<close> is called before \<open>isdigit()\<close>, so it can raise for
  any entry.
\<close>

fun year_loop :: "env \<Rightarrow> string \<Rightarrow> string list \<Rightarrow> string list \<Rightarrow> exc + string list" where
  "year_loop e d [] projects = Inr projects"
| "year_loop e d (y # ys) projects =
     (case fs_is_dir e (fs_join e d y) of
        Inl x \<Rightarrow> Inl x
      | Inr isd \<Rightarrow>
          if isd \<and> isdigit y then
            (case glob e (fs_join e d y) ''*.project'' of
               Inl x \<Rightarrow> Inl x
             | Inr names \<Rightarrow> year_loop e d ys (projects @ map (\<lambda>n. y @ ''/'' @ n) names))
          else year_loop e d ys projects)"

text \<open>\<open>_list_projects\<close> (the same text in both server files), for the root \<open>d\<close>.\<close>

definition list_projects :: "env \<Rightarrow> string \<Rightarrow> exc + string list" where
  "list_projects e d =
     (case glob e d ''*'' of
        Inl x \<Rightarrow> Inl x
      | Inr year_dirs \<Rightarrow>
          (case year_loop e d year_dirs [] of
             Inl x \<Rightarrow> Inl x
           | Inr projects \<Rightarrow> Inr (sort projects)))"

section \<open>Requests: the simplified server (\<open>finger_server.py\<close>)\<close>

text \<open>The truth value of an \<open>Optional[str]\<close>: neither \<open>None\<close> nor the empty string.\<close>

fun truthy :: "string option \<Rightarrow> bool" where
  "truthy None = False"
| "truthy (Some c) = (c \<noteq> [])"

definition invalid_request :: string where
  "invalid_request = ''Invalid request. Use: finger @hostname or finger user@hostname\<newline>''"

text \<open>The listing branch of \<open>process_request\<close>.\<close>

definition list_response :: "env \<Rightarrow> server \<Rightarrow> (exc + string) \<times> server" where
  "list_response e s =
     (case list_projects e (plan_dir s) of
        Inl x \<Rightarrow> (Inl x, s)
      | Inr projects \<Rightarrow>
          (Inr (''Available projects:\<newline>'' @ join ''\<newline>'' projects @ ''\<newline>''), s))"

text \<open>The branch of \<open>process_request\<close> for a specific project.\<close>

definition fetch_one ::
  "env \<Rightarrow> real \<Rightarrow> server \<Rightarrow> string \<Rightarrow> string \<Rightarrow> (exc + string) \<times> server" where
  "fetch_one e now s year project =
     (let project_path = fs_join e (fs_join e (plan_dir s) year) project;
          (calls, content, s') = read_project_file e now s project_path
      in if truthy content
         then (Inr (''Project: '' @ project @ ''\<newline>\<newline>'' @ the content @ ''\<newline>''), s')
         else (Inr (''Project '' @ project @ '' not found in year '' @ year @ ''\<newline>''), s'))"

text \<open>
  \<open>process_request\<close> of \<open>finger_server.py\<close>. The result is the response, or the exception
  that leaves the function, and the server afterwards.
\<close>

definition process_request ::
  "env \<Rightarrow> real \<Rightarrow> server \<Rightarrow> string \<Rightarrow> (exc + string) \<times> server" where
  "process_request e now s request0 =
     (let request = strip request0
      in if request = [] then list_response e s
         else
           (let parts = split CHR ''/'' request
            in if length parts = 2 \<and> isdigit (parts ! 0)
               then fetch_one e now s (parts ! 0) (parts ! 1)
               else (Inr invalid_request, s)))"

section \<open>Requests: the standard server (\<open>finger_server_win.py\<close>)\<close>

definition invalid_format :: string where
  "invalid_format = ''Invalid request format. Use: finger [-l] [user]@host\<newline>''"

definition usage :: string where
  "usage =
     ''Usage: finger [-l] [year/project]@host\<newline>Examples:\<newline>'' @
     ''  finger @host              - List all projects\<newline>'' @
     ''  finger -l @host           - List all projects with details\<newline>'' @
     ''  finger 2025/proj@host     - View specific project\<newline>'' @
     ''  finger -l 2025/proj@host  - View project with details\<newline>''"

text \<open>\<open>str(n)\<close> for a non-negative integer.\<close>

function str_nat :: "nat \<Rightarrow> string" where
  "str_nat n =
     (if n < 10 then [char_of (48 + n)]
      else str_nat (n div 10) @ [char_of (48 + n mod 10)])"
  by pat_completeness auto
termination
  by (relation "measure id") auto

declare str_nat.simps [simp del]

text \<open>The format specifications \<open><w\<close> and \<open>>w\<close>: padding with spaces to the width \<open>w\<close>.\<close>

definition ljust :: "nat \<Rightarrow> string \<Rightarrow> string" where
  "ljust w x = x @ replicate (w - length x) CHR '' ''"

definition rjust :: "nat \<Rightarrow> string \<Rightarrow> string" where
  "rjust w x = replicate (w - length x) CHR '' '' @ x"

text \<open>
  Unpacking a sequence of \<open>n\<close> items into two names when \<open>n\<close> is not 2 raises
  \<open>ValueError\<close>.
\<close>

definition unpack_error :: "nat \<Rightarrow> exc" where
  "unpack_error n =
     (if n < 2 then Exc (''not enough values to unpack (expected 2, got '' @ str_nat n @ '')'')
      else Exc ''too many values to unpack (expected 2)'')"

text \<open>One line of the detailed listing: the \<open>try\<close> block and its handler.\<close>

definition detail_line :: "env \<Rightarrow> string \<Rightarrow> string \<Rightarrow> string" where
  "detail_line e path proj =
     (case fs_stat e path of
        Inl x \<Rightarrow> ljust 30 proj @ '' (error reading file: '' @ exc_str x @ '')''
      | Inr stats \<Rightarrow>
          (case fs_fromtimestamp e (st_mtime stats) of
             Inl x \<Rightarrow> ljust 30 proj @ '' (error reading file: '' @ exc_str x @ '')''
           | Inr modified \<Rightarrow>
               ljust 30 proj @ '' '' @ rjust 8 (str_nat (st_size stats)) @ '' bytes  '' @ modified))"

text \<open>The loop of the detailed listing, with the list \<open>project_details\<close> built so far.\<close>

fun detail_loop :: "env \<Rightarrow> string \<Rightarrow> string list \<Rightarrow> string list \<Rightarrow> exc + string list" where
  "detail_loop e d [] project_details = Inr project_details"
| "detail_loop e d (proj # rest) project_details =
     (case split CHR ''/'' proj of
        [year, name] \<Rightarrow>
          detail_loop e d rest
            (project_details @ [detail_line e (fs_join e (fs_join e d year) name) proj])
      | parts \<Rightarrow> Inl (unpack_error (length parts)))"

text \<open>The listing branch: no user before the \<open>@\<close>.\<close>

definition list_response_win :: "env \<Rightarrow> server \<Rightarrow> bool \<Rightarrow> (exc + string) \<times> server" where
  "list_response_win e s is_long_format =
     (case list_projects e (plan_dir s) of
        Inl x \<Rightarrow> (Inl x, s)
      | Inr projects \<Rightarrow>
          (let header = (if is_long_format then ''Project listing (detailed):\<newline>''
                         else ''Available projects:\<newline>'')
           in if is_long_format then
                (case detail_loop e (plan_dir s) projects [] of
                   Inl x \<Rightarrow> (Inl x, s)
                 | Inr project_details \<Rightarrow>
                     (Inr (header @ join ''\<newline>'' project_details @ ''\<newline>''), s))
              else (Inr (header @ join ''\<newline>'' projects @ ''\<newline>''), s)))"

text \<open>The metadata block of a detailed fetch: the \<open>try\<close> block and its handler.\<close>

definition detailed_response :: "env \<Rightarrow> string \<Rightarrow> string \<Rightarrow> string \<Rightarrow> string \<Rightarrow> string" where
  "detailed_response e project_path year project content =
     (case fs_stat e project_path of
        Inl x \<Rightarrow> ''Error reading project metadata: '' @ exc_str x @ ''\<newline>\<newline>'' @ content @ ''\<newline>''
      | Inr stats \<Rightarrow>
          (case fs_fromtimestamp e (st_mtime stats) of
             Inl x \<Rightarrow>
               ''Error reading project metadata: '' @ exc_str x @ ''\<newline>\<newline>'' @ content @ ''\<newline>''
           | Inr modified \<Rightarrow>
               ''Project: '' @ project @ ''\<newline>'' @
               ''Location: '' @ year @ ''/'' @ project @ ''\<newline>'' @
               ''Size: '' @ str_nat (st_size stats) @ '' bytes\<newline>'' @
               ''Modified: '' @ modified @ ''\<newline>'' @
               ''\<newline>Content:\<newline>'' @ content @ ''\<newline>''))"

text \<open>The branch for a specific project, once the year is known to be all digits.\<close>

definition fetch_one_win ::
  "env \<Rightarrow> real \<Rightarrow> server \<Rightarrow> bool \<Rightarrow> string \<Rightarrow> string \<Rightarrow> (exc + string) \<times> server" where
  "fetch_one_win e now s is_long_format year project =
     (let project_path = fs_join e (fs_join e (plan_dir s) year) project;
          (calls, content, s') = read_project_file e now s project_path
      in if truthy content then
           (if is_long_format
            then (Inr (detailed_response e project_path year project (the content)), s')
            else (Inr (''Project: '' @ project @ ''\<newline>\<newline>'' @ the content @ ''\<newline>''), s'))
         else (Inr (''Project '' @ project @ '' not found in year '' @ year @ ''\<newline>''), s'))"

text \<open>\<open>process_request\<close> of \<open>finger_server_win.py\<close>.\<close>

definition process_request_win ::
  "env \<Rightarrow> real \<Rightarrow> server \<Rightarrow> string \<Rightarrow> (exc + string) \<times> server" where
  "process_request_win e now s request0 =
     (let request1 = strip request0;
          is_long_format = prefix ''-l '' request1;
          request = (if is_long_format then strip (drop 3 request1) else request1)
      in if CHR ''@'' \<in> set request then
           (let parts = split CHR ''@'' request
            in if length parts \<noteq> 2 then (Inr invalid_format, s)
               else
                 (let user = strip (parts ! 0)
                  in if user = [] then list_response_win e s is_long_format
                     else if CHR ''/'' \<in> set user then
                       (case splitn CHR ''/'' 1 user of
                          [year, project] \<Rightarrow>
                            if isdigit year then fetch_one_win e now s is_long_format year project
                            else (Inr usage, s)
                        | ps \<Rightarrow> (Inl (unpack_error (length ps)), s))
                     else (Inr usage, s)))
         else (Inr usage, s))"

section \<open>The command a request selects\<close>

text \<open>
  The branch that \<open>process_request\<close> takes, as a value: the conditions are those of the
  two functions above, with the action of each branch replaced by its name. \<open>Invalid\<close>
  carries the text that the branch returns.
\<close>

datatype command =
    ListAll
  | ListAllDetailed
  | FetchOne string string
  | FetchOneDetailed string string
  | Invalid string

definition parse :: "string \<Rightarrow> command" where
  "parse request0 =
     (let request = strip request0
      in if request = [] then ListAll
         else
           (let parts = split CHR ''/'' request
            in if length parts = 2 \<and> isdigit (parts ! 0)
               then FetchOne (parts ! 0) (parts ! 1)
               else Invalid invalid_request))"

definition parse_win :: "string \<Rightarrow> command" where
  "parse_win request0 =
     (let request1 = strip request0;
          is_long_format = prefix ''-l '' request1;
          request = (if is_long_format then strip (drop 3 request1) else request1)
      in if CHR ''@'' \<in> set request then
           (let parts = split CHR ''@'' request
            in if length parts \<noteq> 2 then Invalid invalid_format
               else
                 (let user = strip (parts ! 0)
                  in if user = [] then (if is_long_format then ListAllDetailed else ListAll)
                     else if CHR ''/'' \<in> set user then
                       (let year = takeWhile (\<lambda>c. c \<noteq> CHR ''/'') user;
                            project = drop 1 (dropWhile (\<lambda>c. c \<noteq> CHR ''/'') user)
                        in if isdigit year
                           then (if is_long_format then FetchOneDetailed year project
                                 else FetchOne year project)
                           else Invalid usage)
                     else Invalid usage))
         else Invalid usage)"

section \<open>The connection handler\<close>

text \<open>
  What a call on the stream can raise: an exception that \<open>except Exception\<close> catches, or
  one that it does not (a \<open>BaseException\<close> outside \<open>Exception\<close>, such as the cancellation
  of the task at an \<open>await\<close>).
\<close>

datatype throwable = IsException exc | NotException string

text \<open>The calls made on the reader and the writer, recorded in the order made.\<close>

datatype event = EvRead | EvPeername | EvWrite string | EvDrain | EvClose | EvWaitClosed

text \<open>
  One connection: what each call on the reader and the writer returns or raises, and the
  codec of \<open>bytes.decode()\<close> and \<open>str.encode()\<close>. Bytes are a \<^typ>\<open>string\<close>. Printing to the
  standard output is not part of the model.
\<close>

record conn =
  c_read :: "throwable + string"
  c_decode :: "string \<Rightarrow> exc + string"
  c_peername :: "throwable + string"
  c_encode :: "string \<Rightarrow> exc + string"
  c_write :: "string \<Rightarrow> throwable + unit"
  c_drain :: "throwable + unit"
  c_close :: "throwable + unit"
  c_wait_closed :: "throwable + unit"

type_synonym processor = "env \<Rightarrow> real \<Rightarrow> server \<Rightarrow> string \<Rightarrow> (exc + string) \<times> server"

text \<open>
  The \<open>try\<close> block of \<open>handle_client\<close>, up to the first call that raises: the calls made, how
  the block ends, and the server afterwards.
\<close>

definition try_block ::
  "processor \<Rightarrow> env \<Rightarrow> real \<Rightarrow> server \<Rightarrow> conn \<Rightarrow> event list \<times> (throwable + unit) \<times> server" where
  "try_block process e now s c =
     (case c_read c of
        Inl x \<Rightarrow> ([EvRead], Inl x, s)
      | Inr data \<Rightarrow>
     (case c_decode c data of
        Inl x \<Rightarrow> ([EvRead], Inl (IsException x), s)
      | Inr text \<Rightarrow>
     (case c_peername c of
        Inl x \<Rightarrow> ([EvRead, EvPeername], Inl x, s)
      | Inr addr \<Rightarrow>
     (case process e now s (strip text) of
        (Inl x, s') \<Rightarrow> ([EvRead, EvPeername], Inl (IsException x), s')
      | (Inr response, s') \<Rightarrow>
     (case c_encode c response of
        Inl x \<Rightarrow> ([EvRead, EvPeername], Inl (IsException x), s')
      | Inr bytes \<Rightarrow>
     (case c_write c bytes of
        Inl x \<Rightarrow> ([EvRead, EvPeername, EvWrite bytes], Inl x, s')
      | Inr _ \<Rightarrow>
     (case c_drain c of
        Inl x \<Rightarrow> ([EvRead, EvPeername, EvWrite bytes, EvDrain], Inl x, s')
      | Inr _ \<Rightarrow> ([EvRead, EvPeername, EvWrite bytes, EvDrain], Inr (), s'))))))))"

text \<open>
  The handler \<open>except Exception\<close>: an \<open>Exception\<close> is caught (and printed), anything else
  stays pending.
\<close>

fun except_Exception :: "throwable + unit \<Rightarrow> throwable + unit" where
  "except_Exception (Inl (IsException x)) = Inr ()"
| "except_Exception (Inl (NotException m)) = Inl (NotException m)"
| "except_Exception (Inr u) = Inr u"

text \<open>
  The \<open>finally\<close> block: \<open>writer.close()\<close>, then \<open>await writer.wait_closed()\<close>. An exception
  raised here leaves the function; otherwise a pending exception does.
\<close>

definition finally_block :: "conn \<Rightarrow> throwable + unit \<Rightarrow> event list \<times> (throwable + unit)" where
  "finally_block c pending =
     (case c_close c of
        Inl x \<Rightarrow> ([EvClose], Inl x)
      | Inr _ \<Rightarrow>
          (case c_wait_closed c of
             Inl x \<Rightarrow> ([EvClose, EvWaitClosed], Inl x)
           | Inr _ \<Rightarrow> ([EvClose, EvWaitClosed], pending)))"

text \<open>
  \<open>handle_client\<close> (the same text in both server files) over the \<open>process_request\<close> of its
  class: the calls made on the stream, the outcome for the caller (\<open>Inl\<close> an exception
  that propagates, \<open>Inr\<close> a normal return) and the server afterwards.
\<close>

definition handle_client_with ::
  "processor \<Rightarrow> env \<Rightarrow> real \<Rightarrow> server \<Rightarrow> conn \<Rightarrow> event list \<times> (throwable + unit) \<times> server" where
  "handle_client_with process e now s c =
     (let (evs, r, s') = try_block process e now s c;
          (evs', out) = finally_block c (except_Exception r)
      in (evs @ evs', out, s'))"

definition handle_client ::
  "env \<Rightarrow> real \<Rightarrow> server \<Rightarrow> conn \<Rightarrow> event list \<times> (throwable + unit) \<times> server" where
  "handle_client = handle_client_with process_request"

definition handle_client_win ::
  "env \<Rightarrow> real \<Rightarrow> server \<Rightarrow> conn \<Rightarrow> event list \<times> (throwable + unit) \<times> server" where
  "handle_client_win = handle_client_with process_request_win"



section \<open>A concrete filesystem\<close>

text \<open>
  The tree of the repository's test fixture, enlarged: the root \<open>plans\<close> holds the year
  directories \<open>2025\<close> (with \<open>test.project\<close>, an empty project file and a file that is no
  project) and \<open>2024\<close>, a directory \<open>notes\<close> that is no year, and a regular file named
  \<open>1999\<close>.
\<close>

definition demo_env :: env where
  "demo_env =
     \<lparr>fs_join = (\<lambda>p n. p @ ''/'' @ n),
      fs_exists = (\<lambda>p. Inr (p \<in> set [''plans'', ''plans/2025'', ''plans/2024'', ''plans/notes'',
                      ''plans/1999'', ''plans/2025/test.project'', ''plans/2025/empty.project'',
                      ''plans/2025/readme.txt'', ''plans/2024/b.project'',
                      ''plans/notes/x.project''])),
      fs_is_dir = (\<lambda>p. Inr (p \<in> set [''plans'', ''plans/2025'', ''plans/2024'', ''plans/notes''])),
      fs_read_text = (\<lambda>p.
         if p = ''plans/2025/test.project'' then Inr ''Test project content''
         else if p = ''plans/2025/empty.project'' then Inr []
         else if p = ''plans/2025/readme.txt'' then Inr ''read me''
         else if p = ''plans/2024/b.project'' then Inr ''b''
         else if p = ''plans/notes/x.project'' then Inr ''x''
         else if p = ''plans/1999'' then Inr ''file''
         else Inl (Exc ''[Errno 2] No such file or directory'')),
      fs_stat = (\<lambda>p.
         if p = ''plans/2025/test.project'' then Inr \<lparr>st_size = 20, st_mtime = 0\<rparr>
         else if p = ''plans/2025/empty.project'' then Inr \<lparr>st_size = 0, st_mtime = 0\<rparr>
         else if p = ''plans/2024/b.project'' then Inr \<lparr>st_size = 1, st_mtime = 0\<rparr>
         else Inl (Exc ''[Errno 2] No such file or directory'')),
      fs_scandir = (\<lambda>p.
         if p = ''plans'' then Inr [''notes'', ''2025'', ''1999'', ''2024'']
         else if p = ''plans/2025'' then Inr [''test.project'', ''readme.txt'', ''empty.project'']
         else if p = ''plans/2024'' then Inr [''b.project'']
         else if p = ''plans/notes'' then Inr [''x.project'']
         else Inr []),
      fs_fromtimestamp = (\<lambda>t. Inr ''1970-01-01 00:00:00'')\<rparr>"

definition demo_server :: server where
  "demo_server = init_server ''plans''"

text \<open>The same server with \<open>test.project\<close> cached at time 0 with a content of that time.\<close>

definition cached_server :: server where
  "cached_server = demo_server\<lparr>cache := [''plans/2025/test.project'' \<mapsto> (0, ''old'')]\<rparr>"


text \<open>
  Two variations of the tree: one in which the year directory \<open>2025\<close> holds
  \<open>test.project\<close> and a directory named \<open>d.project\<close>, and one in which the root can be
  listed but not searched, so that \<open>is_dir()\<close> raises \<open>PermissionError\<close> for its first
  entry.
\<close>

definition dir_project_env :: env where
  "dir_project_env =
     demo_env
       \<lparr>fs_is_dir := (\<lambda>p. Inr (p \<in> set [''plans'', ''plans/2025'', ''plans/2024'',
                        ''plans/notes'', ''plans/2025/d.project''])),
        fs_scandir := (\<lambda>p.
           if p = ''plans/2025'' then Inr [''test.project'', ''d.project'']
           else fs_scandir demo_env p)\<rparr>"

definition denied_env :: env where
  "denied_env =
     demo_env
       \<lparr>fs_is_dir := (\<lambda>p.
           if p = ''plans/notes'' then Inl (Exc ''[Errno 13] Permission denied'')
           else fs_is_dir demo_env p)\<rparr>"

text \<open>
  Connections: one on which every call succeeds, one whose read raises a
  \<open>ConnectionError\<close> (the connection of the repository's test), and one that the peer resets,
  so that \<open>wait_closed()\<close> raises.
\<close>

definition ok_conn :: conn where
  "ok_conn =
     \<lparr>c_read = Inr ''2025/test.project'',
      c_decode = (\<lambda>b. Inr b),
      c_peername = Inr ''127.0.0.1:12345'',
      c_encode = (\<lambda>t. Inr t),
      c_write = (\<lambda>b. Inr ()),
      c_drain = Inr (),
      c_close = Inr (),
      c_wait_closed = Inr ()\<rparr>"


definition reset_conn :: conn where
  "reset_conn =
     ok_conn\<lparr>c_wait_closed := Inl (IsException (Exc ''[Errno 104] Connection reset by peer''))\<rparr>"


section \<open>Lemmas on text\<close>

lemma split_nonempty: "split sep s \<noteq> []"
  by (induction s) (auto split: list.split)

lemma split_no_sep: "sep \<notin> set s \<Longrightarrow> split sep s = [s]"
  by (induction s) auto

lemma split_append: "sep \<notin> set a \<Longrightarrow> split sep (a @ sep # b) = a # split sep b"
  by (induction a) auto

lemma length_split: "length (split sep s) = Suc (count_list s sep)"
  using split_nonempty by (induction s) (auto split: list.split)

lemma splitn_0: "splitn sep 0 s = [s]"
  by (cases s) auto

lemma splitn_1:
  "sep \<in> set s \<Longrightarrow>
   splitn sep (Suc 0) s
     = [takeWhile (\<lambda>c. c \<noteq> sep) s, drop (Suc 0) (dropWhile (\<lambda>c. c \<noteq> sep) s)]"
  by (induction s) (auto simp: splitn_0)

lemma glob_match_star: "glob_match ''*'' name"
  by (induction name) auto

lemma glob_match_lit: "CHR ''*'' \<notin> set pat \<Longrightarrow> glob_match pat name = (name = pat)"
  by (induction pat name rule: glob_match.induct) auto

lemma glob_match_star_lit:
  "CHR ''*'' \<notin> set pat \<Longrightarrow> glob_match (CHR ''*'' # pat) name = suffix pat name"
  by (induction name) (auto simp: glob_match_lit suffix_Cons)

lemma glob_match_project: "glob_match ''*.project'' name = suffix ''.project'' name"
  by (rule glob_match_star_lit) simp

section \<open>Rounding to a double\<close>

lemma pow2_powr: "pow2 i = 2 powr of_int i"
  by (simp add: pow2_def powr_int)

lemma pow2_pos: "0 < pow2 i"
  by (simp add: pow2_powr)

lemma pow2_add: "pow2 (i + j) = pow2 i * pow2 j"
  by (simp add: pow2_powr powr_add)

lemma pow2_1: "pow2 1 = 2" and pow2_52: "pow2 52 = 2 ^ 52" and pow2_53: "pow2 53 = 2 ^ 53"
  by (simp_all add: pow2_def)

lemma pow2_Suc: "pow2 (i + 1) = 2 * pow2 i"
  by (simp add: pow2_add pow2_1)

lemma pow2_mono: "i \<le> j \<Longrightarrow> pow2 i \<le> pow2 j"
  by (simp add: pow2_powr)

lemma pow2_nat: "pow2 (int n) = 2 ^ n"
  by (simp add: pow2_def)

lemma pow2_neg: "pow2 (- i) = 1 / pow2 i"
  by (simp add: pow2_powr powr_minus_divide)

lemma ilog2_bounds:
  assumes "0 < x"
  shows "pow2 (ilog2 x) \<le> x" and "x < pow2 (ilog2 x + 1)"
proof -
  have "pow2 (ilog2 x) \<le> x \<and> x < pow2 (ilog2 x + 1)"
  proof (cases "1 \<le> x")
    case True
    let ?n = "\<lfloor>x\<rfloor>"
    let ?b = "bitlen ?n"
    from True have n: "0 < ?n" by simp
    from bitlen_bounds [OF n] have lo: "2 ^ nat (?b - 1) \<le> ?n" and hi: "?n < 2 ^ nat ?b"
      by simp_all
    have b: "1 \<le> ?b" using n bitlen_eq_zero_iff [of ?n] bitlen_nonneg [of ?n] by linarith
    have "real_of_int (2 ^ nat (?b - 1)) \<le> of_int ?n" using lo by (simp only: of_int_le_iff)
    also have "\<dots> \<le> x" by simp
    finally have 1: "pow2 (?b - 1) \<le> x" using b by (simp add: pow2_def)
    from hi have "?n + 1 \<le> 2 ^ nat ?b" by simp
    then have "real_of_int (?n + 1) \<le> of_int (2 ^ nat ?b)" by (simp only: of_int_le_iff)
    then have "real_of_int ?n + 1 \<le> 2 ^ nat ?b" by simp
    moreover have "x < of_int ?n + 1" by linarith
    ultimately have "x < 2 ^ nat ?b" by linarith
    then have 2: "x < pow2 ?b" using b by (simp add: pow2_def)
    from 1 2 True show ?thesis by (simp add: ilog2_def)
  next
    case False
    with assms have x: "0 < x" "x < 1" by simp_all
    let ?c = "\<lceil>1 / x\<rceil>"
    let ?k = "bitlen (?c - 1)"
    have "1 < 1 / x" using x by simp
    then have c: "1 < ?c" by (simp add: less_ceiling_iff)
    then have c1: "0 < ?c - 1" by simp
    from bitlen_bounds [OF c1] have lo: "2 ^ nat (?k - 1) \<le> ?c - 1" and hi: "?c - 1 < 2 ^ nat ?k"
      by simp_all
    have k: "1 \<le> ?k"
      using c1 bitlen_eq_zero_iff [of "?c - 1"] bitlen_nonneg [of "?c - 1"] by linarith
    from hi have "?c \<le> 2 ^ nat ?k" by simp
    then have "real_of_int ?c \<le> of_int (2 ^ nat ?k)" by (simp only: of_int_le_iff)
    then have "real_of_int ?c \<le> 2 ^ nat ?k" by simp
    moreover have "1 / x \<le> of_int ?c" by (rule le_of_int_ceiling)
    ultimately have "1 / x \<le> 2 ^ nat ?k" by linarith
    then have "1 \<le> 2 ^ nat ?k * x" using x by (simp add: pos_divide_le_eq)
    then have "1 / 2 ^ nat ?k \<le> x" by (simp add: pos_divide_le_eq mult.commute)
    then have 1: "pow2 (- ?k) \<le> x" using k by (simp add: pow2_def)
    have "real_of_int (2 ^ nat (?k - 1)) \<le> of_int (?c - 1)" using lo by (simp only: of_int_le_iff)
    then have "2 ^ nat (?k - 1) \<le> real_of_int ?c - 1" by simp
    moreover have "real_of_int ?c - 1 < 1 / x" using ceiling_correct [of "1 / x"] by linarith
    ultimately have "2 ^ nat (?k - 1) < 1 / x" by linarith
    then have "2 ^ nat (?k - 1) * x < 1" using x by (simp add: pos_less_divide_eq)
    then have "x < 1 / 2 ^ nat (?k - 1)" by (simp add: pos_less_divide_eq mult.commute)
    moreover have "pow2 (- ?k + 1) = 1 / 2 ^ nat (?k - 1)"
      using k by (auto simp: pow2_def)
    ultimately have 2: "x < pow2 (- ?k + 1)" by simp
    from 1 2 False show ?thesis by (simp add: ilog2_def)
  qed
  then show "pow2 (ilog2 x) \<le> x" and "x < pow2 (ilog2 x + 1)" by simp_all
qed

lemma ilog2_unique:
  assumes "pow2 k \<le> x" and "x < pow2 (k + 1)"
  shows "ilog2 x = k"
proof -
  have x: "0 < x" using assms(1) pow2_pos [of k] by linarith
  have "\<not> ilog2 x + 1 \<le> k"
    using pow2_mono [of "ilog2 x + 1" k] ilog2_bounds(2) [OF x] assms(1) by linarith
  moreover have "\<not> k + 1 \<le> ilog2 x"
    using pow2_mono [of "k + 1" "ilog2 x"] ilog2_bounds(1) [OF x] assms(2) by linarith
  ultimately show ?thesis by linarith
qed

lemma ilog2_mono:
  assumes "0 < x" and "x \<le> y"
  shows "ilog2 x \<le> ilog2 y"
proof -
  have y: "0 < y" using assms by linarith
  have "\<not> ilog2 y + 1 \<le> ilog2 x"
    using pow2_mono [of "ilog2 y + 1" "ilog2 x"] ilog2_bounds(1) [OF assms(1)]
      ilog2_bounds(2) [OF y] assms(2) by linarith
  then show ?thesis by linarith
qed

lemma round_half_even_int: "round_half_even (of_int n) = n"
  by (simp add: round_half_even_def)

lemma round_half_even_mono: "q \<le> q' \<Longrightarrow> round_half_even q \<le> round_half_even q'"
proof -
  assume le: "q \<le> q'"
  have lo: "\<lfloor>r\<rfloor> \<le> round_half_even r" and hi: "round_half_even r \<le> \<lfloor>r\<rfloor> + 1" for r
    by (simp_all add: round_half_even_def Let_def)
  from le have "\<lfloor>q\<rfloor> \<le> \<lfloor>q'\<rfloor>" by (rule floor_mono)
  then consider "\<lfloor>q\<rfloor> < \<lfloor>q'\<rfloor>" | "\<lfloor>q\<rfloor> = \<lfloor>q'\<rfloor>" by linarith
  then show ?thesis
  proof cases
    case 1
    with hi [of q] lo [of q'] show ?thesis by linarith
  next
    case 2
    with le show ?thesis by (auto simp: round_half_even_def Let_def)
  qed
qed

lemma round_pos_bounds:
  assumes "0 < x"
  shows "pow2 (ilog2 x) \<le> round_pos x" and "round_pos x \<le> pow2 (ilog2 x + 1)"
proof -
  let ?u = "pow2 (ilog2 x - 52)"
  have u: "0 < ?u" by (rule pow2_pos)
  have a: "pow2 (ilog2 x) = 2 ^ 52 * ?u"
    using pow2_add [of 52 "ilog2 x - 52"] by (simp add: pow2_52)
  have b: "pow2 (ilog2 x + 1) = 2 ^ 53 * ?u"
  proof -
    have "pow2 (ilog2 x + 1) = pow2 (53 + (ilog2 x - 52))"
      by (rule arg_cong [where f = pow2]) simp
    also have "\<dots> = pow2 53 * ?u" by (rule pow2_add)
    finally show ?thesis by (simp only: pow2_53)
  qed
  have "2 ^ 52 * ?u \<le> x" using ilog2_bounds(1) [OF assms] a by simp
  then have "of_int (2 ^ 52) \<le> x / ?u" using u by (simp add: pos_le_divide_eq)
  then have "round_half_even (of_int (2 ^ 52)) \<le> round_half_even (x / ?u)" by (rule round_half_even_mono)
  then have "(2 ^ 52 :: real) \<le> of_int (round_half_even (x / ?u))"
    by (simp only: round_half_even_int) (metis of_int_le_iff of_int_numeral of_int_power)
  then have "2 ^ 52 * ?u \<le> of_int (round_half_even (x / ?u)) * ?u" using u by simp
  then show "pow2 (ilog2 x) \<le> round_pos x" by (simp add: round_pos_def a)
  have "x \<le> 2 ^ 53 * ?u" using ilog2_bounds(2) [OF assms] b by simp
  then have "x / ?u \<le> of_int (2 ^ 53)" using u by (simp add: pos_divide_le_eq)
  then have "round_half_even (x / ?u) \<le> round_half_even (of_int (2 ^ 53))" by (rule round_half_even_mono)
  then have "of_int (round_half_even (x / ?u)) \<le> (2 ^ 53 :: real)"
    by (simp only: round_half_even_int) (metis of_int_le_iff of_int_numeral of_int_power)
  then have "of_int (round_half_even (x / ?u)) * ?u \<le> 2 ^ 53 * ?u" using u by simp
  then show "round_pos x \<le> pow2 (ilog2 x + 1)" by (simp add: round_pos_def b)
qed

lemma round_pos_pos: "0 < x \<Longrightarrow> 0 < round_pos x"
  using round_pos_bounds(1) [of x] pow2_pos [of "ilog2 x"] by linarith

lemma round_pos_mono:
  assumes "0 < x" and "x \<le> y"
  shows "round_pos x \<le> round_pos y"
proof -
  have y: "0 < y" using assms by linarith
  from ilog2_mono [OF assms] consider "ilog2 x = ilog2 y" | "ilog2 x + 1 \<le> ilog2 y"
    by linarith
  then show ?thesis
  proof cases
    case 1
    let ?u = "pow2 (ilog2 y - 52)"
    have u: "0 < ?u" by (rule pow2_pos)
    then have "x / ?u \<le> y / ?u" using assms(2) by (simp add: divide_right_mono)
    then have "round_half_even (x / ?u) \<le> round_half_even (y / ?u)" by (rule round_half_even_mono)
    then have "of_int (round_half_even (x / ?u)) * ?u \<le> of_int (round_half_even (y / ?u)) * ?u" using u by simp
    with 1 show ?thesis by (simp add: round_pos_def)
  next
    case 2
    have "round_pos x \<le> pow2 (ilog2 x + 1)" by (rule round_pos_bounds(2) [OF assms(1)])
    also have "\<dots> \<le> pow2 (ilog2 y)" using 2 by (rule pow2_mono)
    also have "\<dots> \<le> round_pos y" by (rule round_pos_bounds(1) [OF y])
    finally show ?thesis .
  qed
qed

lemma round_double_mono: "x \<le> y \<Longrightarrow> round_double x \<le> round_double y"
proof -
  assume le: "x \<le> y"
  consider "0 < x" | "x \<le> 0" "0 \<le> y" | "y < 0" using le by linarith
  then show ?thesis
  proof cases
    case 1
    then have "0 < y" using le by linarith
    with 1 round_pos_mono [OF 1 le] show ?thesis by (simp add: round_double_def)
  next
    case 2
    have "round_double x \<le> 0"
    proof (cases "x = 0")
      case True
      then show ?thesis by (simp add: round_double_def)
    next
      case False
      with 2(1) have "0 < - x" by linarith
      from round_pos_pos [OF this] False 2(1) show ?thesis by (simp add: round_double_def)
    qed
    moreover have "0 \<le> round_double y"
    proof (cases "y = 0")
      case True
      then show ?thesis by (simp add: round_double_def)
    next
      case False
      with 2(2) have "0 < y" by linarith
      from round_pos_pos [OF this] this show ?thesis by (simp add: round_double_def)
    qed
    ultimately show ?thesis by linarith
  next
    case 3
    then have "0 < - y" "- y \<le> - x" "x < 0" using le by linarith+
    with round_pos_mono [of "- y" "- x"] 3 show ?thesis by (simp add: round_double_def)
  qed
qed

lemma round_double_0: "round_double 0 = 0"
  by (simp add: round_double_def)

lemma round_double_lower: "round_double t = t \<Longrightarrow> t \<le> x \<Longrightarrow> t \<le> round_double x"
  using round_double_mono [of t x] by simp


lemma round_pos_idem:
  assumes "0 < x"
  shows "round_pos (round_pos x) = round_pos x"
proof -
  let ?e = "ilog2 x"
  let ?u = "pow2 (?e - 52)"
  let ?n = "round_half_even (x / ?u)"
  have u: "0 < ?u" by (rule pow2_pos)
  have y: "round_pos x = of_int ?n * ?u" by (simp add: round_pos_def)
  from round_pos_bounds [OF assms] consider "round_pos x < pow2 (?e + 1)" | "round_pos x = pow2 (?e + 1)"
    by linarith
  then show ?thesis
  proof cases
    case 1
    with round_pos_bounds(1) [OF assms] have e: "ilog2 (round_pos x) = ?e" by (intro ilog2_unique)
    have "round_pos x / ?u = of_int ?n" using u by (simp add: y)
    then have r: "round_half_even (round_pos x / ?u) = ?n" by (simp only: round_half_even_int)
    have "round_pos (round_pos x)
        = of_int (round_half_even (round_pos x / pow2 (ilog2 (round_pos x) - 52))) * pow2 (ilog2 (round_pos x) - 52)"
      by (rule round_pos_def)
    also have "\<dots> = of_int (round_half_even (round_pos x / ?u)) * ?u" by (simp only: e)
    also have "\<dots> = of_int ?n * ?u" by (simp only: r)
    also have "\<dots> = round_pos x" by (simp only: y)
    finally show ?thesis .
  next
    case 2
    have "pow2 (?e + 1 + 1) = 2 * pow2 (?e + 1)" by (rule pow2_Suc)
    with 2 pow2_pos [of "?e + 1"] have "round_pos x < pow2 (?e + 1 + 1)" by linarith
    with 2 have e: "ilog2 (round_pos x) = ?e + 1" by (intro ilog2_unique) simp_all
    let ?v = "pow2 (?e + 1 - 52)"
    have v: "0 < ?v" by (rule pow2_pos)
    have "pow2 (?e + 1) = pow2 (52 + (?e + 1 - 52))"
      by (rule arg_cong [where f = pow2]) simp
    also have "\<dots> = pow2 52 * ?v" by (rule pow2_add)
    finally have p: "pow2 (?e + 1) = of_int (2 ^ 52) * ?v" by (simp add: pow2_52)
    then have "round_pos x / ?v = of_int (2 ^ 52)" using v 2 by simp
    then have r: "round_half_even (round_pos x / ?v) = 2 ^ 52" by (simp only: round_half_even_int)
    have "round_pos (round_pos x)
        = of_int (round_half_even (round_pos x / pow2 (ilog2 (round_pos x) - 52))) * pow2 (ilog2 (round_pos x) - 52)"
      by (rule round_pos_def)
    also have "\<dots> = of_int (round_half_even (round_pos x / ?v)) * ?v" by (simp only: e)
    also have "\<dots> = of_int (2 ^ 52) * ?v" by (simp only: r)
    also have "\<dots> = round_pos x" by (simp only: p 2)
    finally show ?thesis .
  qed
qed

lemma round_double_idem: "round_double (round_double x) = round_double x"
proof -
  consider "x = 0" | "0 < x" | "x < 0" by linarith
  then show ?thesis
  proof cases
    case 1
    then show ?thesis by (simp add: round_double_def)
  next
    case 2
    with round_pos_pos [OF 2] round_pos_idem [OF 2] show ?thesis by (simp add: round_double_def)
  next
    case 3
    then have n: "0 < - x" by simp
    with round_pos_pos [OF n] round_pos_idem [OF n] 3 show ?thesis by (simp add: round_double_def)
  qed
qed

lemma dval_fixed: "round_double (dval d) = dval d"
  using dval [of d] by simp

lemma dval_default_cache_time: "dval default_cache_time = 300"
  by (rule default_cache_time.rep_eq)

lemma float_sub_lower: "dval t \<le> x - y \<Longrightarrow> dval t \<le> float_sub x y"
  unfolding float_sub_def by (rule round_double_lower [OF dval_fixed])

section \<open>The cache\<close>

lemma load_from_disk_calls:
  "\<exists>calls r s'. load_from_disk e now s p = (Exists p # calls, r, s')"
  by (simp add: load_from_disk_def split: sum.split bool.split)

lemma load_from_disk_ok:
  "fs_exists e p = Inr True \<Longrightarrow> fs_read_text e p = Inr D \<Longrightarrow>
   load_from_disk e now s p
     = ([Exists p, ReadText p], Some D, s\<lparr>cache := (cache s)(p \<mapsto> (now, D))\<rparr>)"
  by (simp add: load_from_disk_def)

lemma load_from_disk_fail:
  "fs_exists e p \<noteq> Inr True \<or> (\<exists>x. fs_read_text e p = Inl x) \<Longrightarrow>
   \<exists>calls. calls \<noteq> [] \<and> load_from_disk e now s p = (calls, None, s)"
  by (auto simp: load_from_disk_def split: sum.split bool.split)

lemma read_no_fresh_entry:
  assumes "\<forall>T1 C. cache s p = Some (T1, C) \<longrightarrow> \<not> float_sub now T1 < dval (cache_time s)"
  shows "read_project_file e now s p = load_from_disk e now s p"
  using assms by (auto simp: read_project_file_def split: option.split)

text \<open>
  A difference that is at least the time-to-live in the real numbers is at least the
  time-to-live after rounding: rounding is monotone and the time-to-live is a double.
\<close>

lemma read_stale:
  assumes "\<forall>T1 C. cache s p = Some (T1, C) \<longrightarrow> dval (cache_time s) \<le> now - T1"
  shows "read_project_file e now s p = load_from_disk e now s p"
proof (rule read_no_fresh_entry, intro allI impI)
  fix T1 C assume "cache s p = Some (T1, C)"
  with assms have "dval (cache_time s) \<le> now - T1" by simp
  then have "dval (cache_time s) \<le> float_sub now T1" by (rule float_sub_lower)
  then show "\<not> float_sub now T1 < dval (cache_time s)" by linarith
qed

lemma read_fresh:
  "cache s p = Some (T, C) \<Longrightarrow> float_sub now T < dval (cache_time s) \<Longrightarrow>
   read_project_file e now s p = ([], Some C, s)"
  by (simp add: read_project_file_def)






text \<open>
  C2 (cache expiry). Whenever the cache holds an entry for the path, stored at time \<open>T1\<close>,
  a call at a time \<open>T2\<close> with \<open>T2 - T1 \<ge> ttl\<close> goes to the disk (its first filesystem call
  is \<open>exists\<close> on the path); when the file exists and is read with content \<open>D\<close>, the call
  returns \<open>D\<close> and overwrites the entry with \<open>(T2, D)\<close>. A \<open>ttl \<le> 0\<close> makes this so for
  every \<open>T2 \<ge> T1\<close>.
\<close>

theorem cache_expiry:
  assumes "cache s p = Some (T1, C)"
    and "dval (cache_time s) \<le> T2 - T1 \<or> (dval (cache_time s) \<le> 0 \<and> T1 \<le> T2)"
  shows "(\<exists>calls r s'. read_project_file e T2 s p = (Exists p # calls, r, s'))
       \<and> (fs_exists e p = Inr True \<and> fs_read_text e p = Inr D \<longrightarrow>
            read_project_file e T2 s p
              = ([Exists p, ReadText p], Some D, s\<lparr>cache := (cache s)(p \<mapsto> (T2, D))\<rparr>))"
proof -
  from assms(2) have "dval (cache_time s) \<le> T2 - T1" by linarith
  with assms(1) have "read_project_file e T2 s p = load_from_disk e T2 s p"
    by (simp add: read_stale)
  then show ?thesis
    using load_from_disk_calls [of e T2 s p] load_from_disk_ok [of e p D T2 s] by simp
qed

theorem cache_expiry_witness:
  "cache cached_server ''plans/2025/test.project'' = Some (0, ''old'')
   \<and> dval (cache_time cached_server) \<le> 300 - 0
   \<and> fs_exists demo_env ''plans/2025/test.project'' = Inr True
   \<and> fs_read_text demo_env ''plans/2025/test.project'' = Inr ''Test project content''
   \<and> read_project_file demo_env 300 cached_server ''plans/2025/test.project''
      = ([Exists ''plans/2025/test.project'', ReadText ''plans/2025/test.project''],
         Some ''Test project content'',
         cached_server\<lparr>cache := (cache cached_server)
            (''plans/2025/test.project'' \<mapsto> (300, ''Test project content''))\<rparr>)"
proof -
  have h1: "cache cached_server ''plans/2025/test.project'' = Some (0, ''old'')"
    by (simp add: cached_server_def)
  have h2: "dval (cache_time cached_server) \<le> 300 - 0
              \<or> (dval (cache_time cached_server) \<le> 0 \<and> (0::real) \<le> 300)"
    by (simp add: cached_server_def demo_server_def init_server_def dval_default_cache_time)
  have h3: "fs_exists demo_env ''plans/2025/test.project'' = Inr True"
    by (simp add: demo_env_def)
  have h4: "fs_read_text demo_env ''plans/2025/test.project'' = Inr ''Test project content''"
    by (simp add: demo_env_def)
  from cache_expiry [OF h1 h2, of demo_env "''Test project content''"] h1 h3 h4
  show ?thesis
    by (simp add: cached_server_def demo_server_def init_server_def dval_default_cache_time)
qed

text \<open>
  C6 (negative results are not cached). When the cache holds no fresh entry for the path and
  the disk read fails (\<open>exists\<close> does not return true, or \<open>read_text\<close> raises), the call
  goes to the disk, returns \<open>None\<close> and leaves the server, hence the cache mapping, exactly
  as it was; every call for that path made on that server at the same or a later time
  goes to the disk again.
\<close>

theorem negative_results_not_cached:
  assumes "\<forall>T1 C. cache s p = Some (T1, C) \<longrightarrow> dval (cache_time s) \<le> now - T1"
    and "fs_exists e p \<noteq> Inr True \<or> (\<exists>x. fs_read_text e p = Inl x)"
  shows "\<exists>calls. calls \<noteq> [] \<and> read_project_file e now s p = (calls, None, s)
           \<and> (\<forall>e' now'. now \<le> now' \<longrightarrow>
                (\<exists>calls' r s'. read_project_file e' now' s p = (Exists p # calls', r, s')))"
proof -
  have later: "\<exists>calls' r s'. read_project_file e' now' s p = (Exists p # calls', r, s')"
    if "now \<le> now'" for e' now'
  proof -
    have "\<forall>T1 C. cache s p = Some (T1, C) \<longrightarrow> dval (cache_time s) \<le> now' - T1"
      using assms(1) that by fastforce
    then show ?thesis
      using load_from_disk_calls [of e' now' s p] by (simp add: read_stale)
  qed
  from load_from_disk_fail [OF assms(2), of now s]
  obtain calls where "calls \<noteq> []" "load_from_disk e now s p = (calls, None, s)" by blast
  with assms(1) have "calls \<noteq> [] \<and> read_project_file e now s p = (calls, None, s)"
    by (simp add: read_stale)
  with later show ?thesis by blast
qed

theorem negative_results_not_cached_witness:
  "cache cached_server ''plans/2025/gone.project'' = None
   \<and> fs_exists demo_env ''plans/2025/gone.project'' = Inr False
   \<and> read_project_file demo_env 5 cached_server ''plans/2025/gone.project''
       = ([Exists ''plans/2025/gone.project''], None, cached_server)
   \<and> read_project_file demo_env 6 cached_server ''plans/2025/gone.project''
       = ([Exists ''plans/2025/gone.project''], None, cached_server)"
proof -
  have h0: "cache cached_server ''plans/2025/gone.project'' = None"
    by (simp add: cached_server_def)
  have h1: "\<forall>T1 C. cache cached_server ''plans/2025/gone.project'' = Some (T1, C)
              \<longrightarrow> dval (cache_time cached_server) \<le> 5 - T1"
    by (simp add: h0)
  have h3: "fs_exists demo_env ''plans/2025/gone.project'' = Inr False"
    by (simp add: demo_env_def)
  have h2: "fs_exists demo_env ''plans/2025/gone.project'' \<noteq> Inr True
              \<or> (\<exists>x. fs_read_text demo_env ''plans/2025/gone.project'' = Inl x)"
    by (simp add: h3)
  from negative_results_not_cached [OF h1 h2]
  obtain calls where c: "calls \<noteq> []"
      "read_project_file demo_env 5 cached_server ''plans/2025/gone.project''
         = (calls, None, cached_server)"
      "\<exists>calls' r s'. read_project_file demo_env 6 cached_server ''plans/2025/gone.project''
         = (Exists ''plans/2025/gone.project'' # calls', r, s')"
    by force
  have h4: "read_project_file demo_env 5 cached_server ''plans/2025/gone.project''
       = ([Exists ''plans/2025/gone.project''], None, cached_server)"
    by (simp add: read_project_file_def load_from_disk_def h0 h3)
  have h5: "read_project_file demo_env 6 cached_server ''plans/2025/gone.project''
       = ([Exists ''plans/2025/gone.project''], None, cached_server)"
    by (simp add: read_project_file_def load_from_disk_def h0 h3)
  from c h0 h3 h4 h5 show ?thesis by blast
qed

section \<open>The project catalogue\<close>

lemma glob_all: "glob e d ''*'' = fs_scandir e d"
  by (auto simp: glob_def glob_match_star split: sum.split)

lemma glob_project:
  "fs_scandir e d = Inr names \<Longrightarrow>
   glob e d ''*.project'' = Inr (filter (suffix ''.project'') names)"
  unfolding glob_def by (simp add: glob_match_project [abs_def])

lemma glob_raises: "fs_scandir e d = Inl x \<Longrightarrow> glob e d pat = Inl x"
  by (simp add: glob_def)

lemma year_loop_ok:
  assumes "\<forall>y\<in>set ys. fs_is_dir e (fs_join e d y) = Inr (isd y)"
    and "\<forall>y\<in>set ys. isd y \<and> isdigit y \<longrightarrow> fs_scandir e (fs_join e d y) = Inr (entries y)"
  shows "year_loop e d ys acc =
     Inr (acc @ concat (map (\<lambda>y. map (\<lambda>n. y @ ''/'' @ n) (filter (suffix ''.project'') (entries y)))
                        (filter (\<lambda>y. isd y \<and> isdigit y) ys)))"
  using assms
proof (induction ys arbitrary: acc)
  case Nil
  then show ?case by simp
next
  case (Cons y ys)
  then show ?case by (simp add: glob_project)
qed

text \<open>
  The loop has no handler: it returns a list exactly when every \<open>is_dir()\<close> call returns
  and the scan of every directory with an all-digit name returns.
\<close>

lemma year_loop_returns_iff:
  "(\<exists>ps. year_loop e d ys acc = Inr ps) =
     (\<forall>y\<in>set ys. \<exists>b. fs_is_dir e (fs_join e d y) = Inr b
        \<and> (b \<and> isdigit y \<longrightarrow> (\<exists>ns. fs_scandir e (fs_join e d y) = Inr ns)))"
proof (induction ys arbitrary: acc)
  case Nil
  then show ?case by simp
next
  case (Cons y ys)
  show ?case
  proof (cases "fs_is_dir e (fs_join e d y)")
    case (Inl x)
    then show ?thesis by simp
  next
    case (Inr b)
    show ?thesis
    proof (cases "b \<and> isdigit y")
      case False
      with Inr Cons.IH [of acc] show ?thesis by auto
    next
      case True
      show ?thesis
      proof (cases "fs_scandir e (fs_join e d y)")
        case (Inl x)
        with Inr True show ?thesis by (simp add: glob_raises)
      next
        case r: (Inr ns)
        from True have b: "b = True" and y: "isdigit y" by simp_all
        have step: "year_loop e d (y # ys) acc
            = year_loop e d ys (acc @ map (\<lambda>n. y @ ''/'' @ n) (filter (suffix ''.project'') ns))"
          using Inr r b y by (simp add: glob_project)
        have head: "\<exists>b. fs_is_dir e (fs_join e d y) = Inr b
            \<and> (b \<and> isdigit y \<longrightarrow> (\<exists>ns. fs_scandir e (fs_join e d y) = Inr ns))"
          using Inr r by blast
        show ?thesis unfolding step Cons.IH using head by simp
      qed
    qed
  qed
qed

lemma list_projects_returns_iff:
  "(\<exists>ps. list_projects e d = Inr ps) =
     (\<exists>ys. fs_scandir e d = Inr ys
        \<and> (\<forall>y\<in>set ys. \<exists>b. fs_is_dir e (fs_join e d y) = Inr b
              \<and> (b \<and> isdigit y \<longrightarrow> (\<exists>ns. fs_scandir e (fs_join e d y) = Inr ns))))"
proof (cases "fs_scandir e d")
  case (Inl x)
  then show ?thesis by (simp add: list_projects_def glob_all)
next
  case (Inr ys)
  have "(\<exists>ps. list_projects e d = Inr ps) = (\<exists>ps. year_loop e d ys [] = Inr ps)"
    using Inr by (auto simp: list_projects_def glob_all split: sum.splits)
  with Inr show ?thesis by (simp add: year_loop_returns_iff)
qed

lemma list_projects_listing:
  assumes "fs_scandir e d = Inr ys"
    and "\<forall>y\<in>set ys. fs_is_dir e (fs_join e d y) = Inr (isd y)"
    and "\<forall>y\<in>set ys. isd y \<and> isdigit y \<longrightarrow> fs_scandir e (fs_join e d y) = Inr (entries y)"
  shows "\<exists>ps. list_projects e d = Inr ps \<and> sorted ps
           \<and> ps = sort (concat (map (\<lambda>y. map (\<lambda>n. y @ ''/'' @ n)
                                             (filter (suffix ''.project'') (entries y)))
                                    (filter (\<lambda>y. isd y \<and> isdigit y) ys)))
           \<and> set ps = {y @ ''/'' @ n |y n. y \<in> set ys \<and> isd y \<and> isdigit y
                          \<and> n \<in> set (entries y) \<and> suffix ''.project'' n}"
proof -
  let ?L = "concat (map (\<lambda>y. map (\<lambda>n. y @ ''/'' @ n) (filter (suffix ''.project'') (entries y)))
                        (filter (\<lambda>y. isd y \<and> isdigit y) ys))"
  have "year_loop e d ys [] = Inr ?L"
    using year_loop_ok [OF assms(2,3), of "[]"] by simp
  then have "list_projects e d = Inr (sort ?L)"
    by (simp add: list_projects_def glob_all assms(1))
  moreover have "set ?L = {y @ ''/'' @ n |y n. y \<in> set ys \<and> isd y \<and> isdigit y
                          \<and> n \<in> set (entries y) \<and> suffix ''.project'' n}"
    by auto
  ultimately show ?thesis by simp
qed

text \<open>
  C8 (the listing). Let the root hold the entries \<open>ys\<close>, let \<open>isd y\<close> say whether the entry
  \<open>y\<close> is a directory, and let \<open>entries y\<close> be the entries of the year directory \<open>y\<close>, files
  and directories alike. When the scan of the root, every \<open>is_dir()\<close> call and the scan of
  every year directory return, \<open>_list_projects\<close> returns the strings \<open>y/n\<close> for exactly the
  directories \<open>y\<close> of the root whose name is all digits and the entries \<open>n\<close> of \<open>y\<close>, of any
  kind, whose name ends in \<open>.project\<close>, sorted ascending in the lexicographic order of the
  full strings. When one of these calls raises, \<open>_list_projects\<close> returns no list: the
  exception leaves it.
\<close>

theorem list_projects_sorted_listing:
  "(fs_scandir e d = Inr ys
      \<and> (\<forall>y\<in>set ys. fs_is_dir e (fs_join e d y) = Inr (isd y))
      \<and> (\<forall>y\<in>set ys. isd y \<and> isdigit y \<longrightarrow> fs_scandir e (fs_join e d y) = Inr (entries y))
    \<longrightarrow> (\<exists>ps. list_projects e d = Inr ps \<and> sorted ps
           \<and> ps = sort (concat (map (\<lambda>y. map (\<lambda>n. y @ ''/'' @ n)
                                             (filter (suffix ''.project'') (entries y)))
                                    (filter (\<lambda>y. isd y \<and> isdigit y) ys)))
           \<and> set ps = {y @ ''/'' @ n |y n. y \<in> set ys \<and> isd y \<and> isdigit y
                          \<and> n \<in> set (entries y) \<and> suffix ''.project'' n}))
   \<and> ((\<exists>ps. list_projects e d = Inr ps) =
        (\<exists>ys. fs_scandir e d = Inr ys
           \<and> (\<forall>y\<in>set ys. \<exists>b. fs_is_dir e (fs_join e d y) = Inr b
                 \<and> (b \<and> isdigit y \<longrightarrow> (\<exists>ns. fs_scandir e (fs_join e d y) = Inr ns)))))
   \<and> ((\<exists>x. fs_scandir e d = Inl x)
        \<or> (fs_scandir e d = Inr ys \<and> (\<exists>y\<in>set ys. \<exists>x. fs_is_dir e (fs_join e d y) = Inl x))
      \<longrightarrow> (\<exists>x. list_projects e d = Inl x))"
proof -
  have a: "\<exists>ps. list_projects e d = Inr ps \<and> sorted ps
           \<and> ps = sort (concat (map (\<lambda>y. map (\<lambda>n. y @ ''/'' @ n)
                                             (filter (suffix ''.project'') (entries y)))
                                    (filter (\<lambda>y. isd y \<and> isdigit y) ys)))
           \<and> set ps = {y @ ''/'' @ n |y n. y \<in> set ys \<and> isd y \<and> isdigit y
                          \<and> n \<in> set (entries y) \<and> suffix ''.project'' n}"
    if "fs_scandir e d = Inr ys
      \<and> (\<forall>y\<in>set ys. fs_is_dir e (fs_join e d y) = Inr (isd y))
      \<and> (\<forall>y\<in>set ys. isd y \<and> isdigit y \<longrightarrow> fs_scandir e (fs_join e d y) = Inr (entries y))"
    using that list_projects_listing [of e d ys isd entries] by blast
  have c: "\<exists>x. list_projects e d = Inl x"
    if h: "(\<exists>x. fs_scandir e d = Inl x)
        \<or> (fs_scandir e d = Inr ys \<and> (\<exists>y\<in>set ys. \<exists>x. fs_is_dir e (fs_join e d y) = Inl x))"
  proof -
    have "\<not> (\<exists>ps. list_projects e d = Inr ps)"
    proof
      assume "\<exists>ps. list_projects e d = Inr ps"
      then obtain ys' where 1: "fs_scandir e d = Inr ys'"
        and 2: "\<forall>y\<in>set ys'. \<exists>b. fs_is_dir e (fs_join e d y) = Inr b"
        unfolding list_projects_returns_iff by blast
      from h 1 have "ys' = ys" and "\<exists>y\<in>set ys. \<exists>x. fs_is_dir e (fs_join e d y) = Inl x"
        by auto
      with 2 show False by fastforce
    qed
    then show ?thesis by (cases "list_projects e d") auto
  qed
  from a c list_projects_returns_iff [of e d] show ?thesis by blast
qed

theorem list_projects_sorted_listing_witness:
  "fs_scandir demo_env ''plans'' = Inr [''notes'', ''2025'', ''1999'', ''2024'']
   \<and> fs_is_dir demo_env ''plans/notes'' = Inr True
   \<and> fs_is_dir demo_env ''plans/2025'' = Inr True
   \<and> fs_is_dir demo_env ''plans/1999'' = Inr False
   \<and> fs_is_dir demo_env ''plans/2024'' = Inr True
   \<and> fs_scandir demo_env ''plans/2025''
       = Inr [''test.project'', ''readme.txt'', ''empty.project'']
   \<and> fs_scandir demo_env ''plans/2024'' = Inr [''b.project'']
   \<and> list_projects demo_env ''plans''
       = Inr [''2024/b.project'', ''2025/empty.project'', ''2025/test.project'']"
proof -
  have d: "isdigit ''2025''" "isdigit ''2024''" "isdigit ''1999''" "\<not> isdigit ''notes''"
    by (simp_all add: isdigit_def py_isdigit_char_def)
  have h1: "fs_scandir demo_env ''plans'' = Inr [''notes'', ''2025'', ''1999'', ''2024'']"
    by (simp add: demo_env_def)
  have h2: "\<forall>y\<in>set [''notes'', ''2025'', ''1999'', ''2024''].
         fs_is_dir demo_env (fs_join demo_env ''plans'' y) = Inr (y \<noteq> ''1999'')"
    by (simp add: demo_env_def)
  have h3: "\<forall>y\<in>set [''notes'', ''2025'', ''1999'', ''2024'']. y \<noteq> ''1999'' \<and> isdigit y \<longrightarrow>
         fs_scandir demo_env (fs_join demo_env ''plans'' y)
           = Inr (if y = ''2025'' then [''test.project'', ''readme.txt'', ''empty.project'']
                  else [''b.project''])"
    by (simp add: demo_env_def d)
  from list_projects_sorted_listing
         [of demo_env "''plans''" "[''notes'', ''2025'', ''1999'', ''2024'']"
             "\<lambda>y. y \<noteq> ''1999''"
             "\<lambda>y. if y = ''2025'' then [''test.project'', ''readme.txt'', ''empty.project'']
                  else [''b.project'']"]
       h1 h2 h3
  have "\<exists>ps. list_projects demo_env ''plans'' = Inr ps
           \<and> ps = sort (concat (map (\<lambda>y. map (\<lambda>n. y @ ''/'' @ n)
                    (filter (suffix ''.project'')
                       (if y = ''2025'' then [''test.project'', ''readme.txt'', ''empty.project'']
                        else [''b.project''])))
                    (filter (\<lambda>y. y \<noteq> ''1999'' \<and> isdigit y)
                       [''notes'', ''2025'', ''1999'', ''2024''])))"
    by blast
  then have r: "list_projects demo_env ''plans''
       = Inr [''2024/b.project'', ''2025/empty.project'', ''2025/test.project'']"
    by (simp add: d suffix_def)
  have "fs_is_dir demo_env ''plans/notes'' = Inr True"
    "fs_is_dir demo_env ''plans/2025'' = Inr True"
    "fs_is_dir demo_env ''plans/1999'' = Inr False"
    "fs_is_dir demo_env ''plans/2024'' = Inr True"
    "fs_scandir demo_env ''plans/2025''
       = Inr [''test.project'', ''readme.txt'', ''empty.project'']"
    "fs_scandir demo_env ''plans/2024'' = Inr [''b.project'']"
    by (simp_all add: demo_env_def)
  with h1 r show ?thesis by blast
qed

theorem list_projects_counterexample:
  "fs_scandir dir_project_env ''plans/2025'' = Inr [''test.project'', ''d.project'']
   \<and> fs_is_dir dir_project_env ''plans/2025/d.project'' = Inr True
   \<and> list_projects dir_project_env ''plans''
       = Inr [''2024/b.project'', ''2025/d.project'', ''2025/test.project'']
   \<and> fs_scandir denied_env ''plans'' = Inr [''notes'', ''2025'', ''1999'', ''2024'']
   \<and> fs_is_dir denied_env ''plans/notes''
       = Inl (Exc ''[Errno 13] Permission denied'')
   \<and> list_projects denied_env ''plans''
       = Inl (Exc ''[Errno 13] Permission denied'')"
  by code_simp

section \<open>Requests and the commands they select\<close>

lemma isdigit_no_slash: "isdigit y \<Longrightarrow> CHR ''/'' \<notin> set y"
  by (auto simp: isdigit_def list_all_iff py_isdigit_char_def)

lemma parse_cases:
  "parse r = ListAll \<or> (\<exists>y p. parse r = FetchOne y p) \<or> parse r = Invalid invalid_request"
  by (simp add: parse_def Let_def)

lemma process_request_ListAll:
  "parse r = ListAll \<Longrightarrow> process_request e now s r = list_response e s"
  by (simp add: parse_def process_request_def Let_def split: if_splits)

lemma process_request_FetchOne:
  "parse r = FetchOne y p \<Longrightarrow> process_request e now s r = fetch_one e now s y p"
  by (auto simp: parse_def process_request_def Let_def split: if_splits)

lemma process_request_Invalid:
  "parse r = Invalid m \<Longrightarrow> process_request e now s r = (Inr m, s)"
  by (auto simp: parse_def process_request_def Let_def split: if_splits)

lemma parse_win_cases:
  "parse_win r = ListAll \<or> parse_win r = ListAllDetailed
   \<or> (\<exists>y p. parse_win r = FetchOne y p) \<or> (\<exists>y p. parse_win r = FetchOneDetailed y p)
   \<or> parse_win r = Invalid invalid_format \<or> parse_win r = Invalid usage"
  by (simp add: parse_win_def Let_def)

lemma process_request_win_ListAll:
  "parse_win r = ListAll \<Longrightarrow> process_request_win e now s r = list_response_win e s False"
  by (auto simp: parse_win_def process_request_win_def Let_def splitn_1 split: if_splits)

lemma process_request_win_ListAllDetailed:
  "parse_win r = ListAllDetailed \<Longrightarrow> process_request_win e now s r = list_response_win e s True"
  by (auto simp: parse_win_def process_request_win_def Let_def splitn_1 split: if_splits)

lemma process_request_win_FetchOne:
  "parse_win r = FetchOne y p \<Longrightarrow>
   process_request_win e now s r = fetch_one_win e now s False y p"
  by (auto simp: parse_win_def process_request_win_def Let_def splitn_1 split: if_splits)

lemma process_request_win_FetchOneDetailed:
  "parse_win r = FetchOneDetailed y p \<Longrightarrow>
   process_request_win e now s r = fetch_one_win e now s True y p"
  by (auto simp: parse_win_def process_request_win_def Let_def splitn_1 split: if_splits)

lemma process_request_win_Invalid:
  "parse_win r = Invalid m \<Longrightarrow> process_request_win e now s r = (Inr m, s)"
  by (auto simp: parse_win_def process_request_win_def Let_def splitn_1 split: if_splits)

section \<open>Every response ends with a newline\<close>

lemma ends_nl_invalid:
  "ends_with_newline invalid_request" "ends_with_newline invalid_format"
  "ends_with_newline usage"
  by (simp_all add: ends_with_newline_def invalid_request_def invalid_format_def usage_def)

lemma ends_nl_append:
  "ends_with_newline (xs @ ys) = (if ys = [] then ends_with_newline xs else ends_with_newline ys)"
  by (simp add: ends_with_newline_def)

lemma ends_nl_Cons:
  "ends_with_newline (c # xs) = (if xs = [] then c = CHR ''\<newline>'' else ends_with_newline xs)"
  by (simp add: ends_with_newline_def)

lemma ends_nl_single: "ends_with_newline ''\<newline>''"
  by (simp add: ends_with_newline_def)

lemma list_response_nl: "fst (list_response e s) = Inr resp \<Longrightarrow> ends_with_newline resp"
  by (auto simp: list_response_def ends_nl_append ends_nl_Cons ends_nl_single split: sum.splits)

lemma fetch_one_cases:
  "\<exists>calls content s'.
     read_project_file e now s (fs_join e (fs_join e (plan_dir s) y) p) = (calls, content, s')
     \<and> fetch_one e now s y p =
        (if truthy content
         then (Inr (''Project: '' @ p @ ''\<newline>\<newline>'' @ the content @ ''\<newline>''), s')
         else (Inr (''Project '' @ p @ '' not found in year '' @ y @ ''\<newline>''), s'))"
  by (cases "read_project_file e now s (fs_join e (fs_join e (plan_dir s) y) p)")
     (simp add: fetch_one_def)

lemma fetch_one_nl: "\<exists>resp. fst (fetch_one e now s y p) = Inr resp \<and> ends_with_newline resp"
proof -
  from fetch_one_cases [of e now s y p] obtain calls content s' where
    "fetch_one e now s y p =
        (if truthy content
         then (Inr (''Project: '' @ p @ ''\<newline>\<newline>'' @ the content @ ''\<newline>''), s')
         else (Inr (''Project '' @ p @ '' not found in year '' @ y @ ''\<newline>''), s'))"
    by blast
  then show ?thesis
    by (cases "truthy content") (simp_all add: ends_nl_append ends_nl_Cons ends_nl_single)
qed

lemma fetch_one_returns: "\<exists>resp. fst (fetch_one e now s y p) = Inr resp"
  using fetch_one_nl [of e now s y p] by blast

lemma detailed_response_nl: "ends_with_newline (detailed_response e pp y p c)"
  by (simp add: detailed_response_def ends_nl_append ends_nl_Cons ends_nl_single split: sum.split)

lemma list_response_win_nl:
  "fst (list_response_win e s b) = Inr resp \<Longrightarrow> ends_with_newline resp"
  by (auto simp: list_response_win_def ends_nl_append ends_nl_Cons ends_nl_single split: sum.splits if_splits)

lemma fetch_one_win_cases:
  "\<exists>calls content s'.
     read_project_file e now s (fs_join e (fs_join e (plan_dir s) y) p) = (calls, content, s')
     \<and> fetch_one_win e now s b y p =
        (if truthy content then
           (if b
            then (Inr (detailed_response e (fs_join e (fs_join e (plan_dir s) y) p) y p
                         (the content)), s')
            else (Inr (''Project: '' @ p @ ''\<newline>\<newline>'' @ the content @ ''\<newline>''), s'))
         else (Inr (''Project '' @ p @ '' not found in year '' @ y @ ''\<newline>''), s'))"
  by (cases "read_project_file e now s (fs_join e (fs_join e (plan_dir s) y) p)")
     (simp add: fetch_one_win_def)

lemma fetch_one_win_nl:
  "\<exists>resp. fst (fetch_one_win e now s b y p) = Inr resp \<and> ends_with_newline resp"
proof -
  from fetch_one_win_cases [of e now s y p b] obtain calls content s' where
    "fetch_one_win e now s b y p =
        (if truthy content then
           (if b
            then (Inr (detailed_response e (fs_join e (fs_join e (plan_dir s) y) p) y p
                         (the content)), s')
            else (Inr (''Project: '' @ p @ ''\<newline>\<newline>'' @ the content @ ''\<newline>''), s'))
         else (Inr (''Project '' @ p @ '' not found in year '' @ y @ ''\<newline>''), s'))"
    by blast
  then show ?thesis
    by (cases "truthy content"; cases b)
       (simp_all add: ends_nl_append ends_nl_Cons ends_nl_single detailed_response_nl)
qed

lemma fetch_one_win_returns: "\<exists>resp. fst (fetch_one_win e now s b y p) = Inr resp"
  using fetch_one_win_nl [of e now s b y p] by blast

lemma detail_loop_ok:
  "\<forall>p\<in>set ps. length (split CHR ''/'' p) = 2 \<Longrightarrow> \<exists>ds. detail_loop e d ps acc = Inr ds"
proof (induction ps arbitrary: acc)
  case Nil
  then show ?case by simp
next
  case (Cons p ps)
  then obtain a b where "split CHR ''/'' p = [a, b]"
    by (auto simp: length_Suc_conv numeral_2_eq_2)
  with Cons show ?case by simp
qed

lemma list_response_returns:
  "list_projects e (plan_dir s) = Inr ps \<Longrightarrow> \<exists>resp. fst (list_response e s) = Inr resp"
  by (simp add: list_response_def)

lemma list_response_win_returns:
  "list_projects e (plan_dir s) = Inr ps \<Longrightarrow> \<forall>p\<in>set ps. length (split CHR ''/'' p) = 2 \<Longrightarrow>
   \<exists>resp. fst (list_response_win e s b) = Inr resp"
  using detail_loop_ok [of ps e "plan_dir s" "[]"]
  by (auto simp: list_response_win_def)

lemma process_request_nl:
  "fst (process_request e now s r) = Inr resp \<Longrightarrow> ends_with_newline resp"
  using parse_cases [of r]
proof (elim disjE exE)
  assume "parse r = ListAll" and "fst (process_request e now s r) = Inr resp"
  then show ?thesis by (simp add: process_request_ListAll list_response_nl)
next
  fix y p assume "parse r = FetchOne y p" and "fst (process_request e now s r) = Inr resp"
  then show ?thesis using fetch_one_nl [of e now s y p]
    by (auto simp: process_request_FetchOne)
next
  assume "parse r = Invalid invalid_request" and "fst (process_request e now s r) = Inr resp"
  then show ?thesis by (auto simp: process_request_Invalid ends_nl_invalid)
qed

lemma process_request_win_nl:
  "fst (process_request_win e now s r) = Inr resp \<Longrightarrow> ends_with_newline resp"
  using parse_win_cases [of r]
proof (elim disjE exE)
  assume "parse_win r = ListAll" and "fst (process_request_win e now s r) = Inr resp"
  then show ?thesis by (simp add: process_request_win_ListAll list_response_win_nl)
next
  assume "parse_win r = ListAllDetailed" and "fst (process_request_win e now s r) = Inr resp"
  then show ?thesis by (simp add: process_request_win_ListAllDetailed list_response_win_nl)
next
  fix y p assume "parse_win r = FetchOne y p" and "fst (process_request_win e now s r) = Inr resp"
  then show ?thesis using fetch_one_win_nl [of e now s False y p]
    by (auto simp: process_request_win_FetchOne)
next
  fix y p assume "parse_win r = FetchOneDetailed y p"
    and "fst (process_request_win e now s r) = Inr resp"
  then show ?thesis using fetch_one_win_nl [of e now s True y p]
    by (auto simp: process_request_win_FetchOneDetailed)
next
  assume "parse_win r = Invalid invalid_format"
    and "fst (process_request_win e now s r) = Inr resp"
  then show ?thesis by (auto simp: process_request_win_Invalid ends_nl_invalid)
next
  assume "parse_win r = Invalid usage" and "fst (process_request_win e now s r) = Inr resp"
  then show ?thesis by (auto simp: process_request_win_Invalid ends_nl_invalid)
qed

lemma process_request_returns:
  "parse r \<noteq> ListAll \<or> (\<exists>ps. list_projects e (plan_dir s) = Inr ps) \<Longrightarrow>
   \<exists>resp. fst (process_request e now s r) = Inr resp"
  using parse_cases [of r] list_response_returns [of e s] fetch_one_returns [of e now s]
  by (auto simp: process_request_ListAll process_request_FetchOne process_request_Invalid)

lemma process_request_win_returns:
  "parse_win r \<notin> {ListAll, ListAllDetailed}
     \<or> (\<exists>ps. list_projects e (plan_dir s) = Inr ps
              \<and> (\<forall>p\<in>set ps. length (split CHR ''/'' p) = 2)) \<Longrightarrow>
   \<exists>resp. fst (process_request_win e now s r) = Inr resp"
  using parse_win_cases [of r] list_response_win_returns [of e s]
    fetch_one_win_returns [of e now s]
  by (auto simp: process_request_win_ListAll process_request_win_ListAllDetailed
      process_request_win_FetchOne process_request_win_FetchOneDetailed
      process_request_win_Invalid)

text \<open>
  C10 (trailing newline). Whatever the request, the filesystem and the server, a response
  returned by \<open>process_request\<close> ends with a newline, in both server files and on every
  branch. A response is returned for every request that is not a listing; for a listing it
  is returned when the directory scan does not raise (and, for the detailed listing, when
  every listed string has exactly one \<open>/\<close>); otherwise the exception leaves the function.
\<close>

theorem response_ends_with_newline:
  "(\<forall>resp. fst (process_request e now s r) = Inr resp \<longrightarrow> ends_with_newline resp)
   \<and> (\<forall>resp. fst (process_request_win e now s r) = Inr resp \<longrightarrow> ends_with_newline resp)
   \<and> (parse r \<noteq> ListAll \<or> (\<exists>ps. list_projects e (plan_dir s) = Inr ps)
        \<longrightarrow> (\<exists>resp. fst (process_request e now s r) = Inr resp))
   \<and> (parse_win r \<notin> {ListAll, ListAllDetailed}
        \<or> (\<exists>ps. list_projects e (plan_dir s) = Inr ps
                 \<and> (\<forall>p\<in>set ps. length (split CHR ''/'' p) = 2))
        \<longrightarrow> (\<exists>resp. fst (process_request_win e now s r) = Inr resp))"
  using process_request_nl [of e now s r] process_request_win_nl [of e now s r]
    process_request_returns [of r e s now] process_request_win_returns [of r e s now]
  by blast

theorem response_ends_with_newline_witness:
  "fst (process_request demo_env 0 demo_server ''2025/test.project'')
     = Inr ''Project: test.project\<newline>\<newline>Test project content\<newline>''
   \<and> ends_with_newline ''Project: test.project\<newline>\<newline>Test project content\<newline>''
   \<and> fst (process_request_win demo_env 0 demo_server ''-l 2025/gone.project@host'')
     = Inr ''Project gone.project not found in year 2025\<newline>''
   \<and> ends_with_newline ''Project gone.project not found in year 2025\<newline>''"
proof -
  have a: "fst (process_request demo_env 0 demo_server ''2025/test.project'')
     = Inr ''Project: test.project\<newline>\<newline>Test project content\<newline>''"
    by code_simp
  have b: "fst (process_request_win demo_env 0 demo_server ''-l 2025/gone.project@host'')
     = Inr ''Project gone.project not found in year 2025\<newline>''"
    by code_simp
  from response_ends_with_newline [of demo_env 0 demo_server "''2025/test.project''"] a
  have c: "ends_with_newline ''Project: test.project\<newline>\<newline>Test project content\<newline>''"
    by blast
  from response_ends_with_newline [of demo_env 0 demo_server "''-l 2025/gone.project@host''"] b
  have d: "ends_with_newline ''Project gone.project not found in year 2025\<newline>''"
    by blast
  from a b c d show ?thesis by blast
qed

section \<open>The responses to the requests\<close>

lemma strip_Nil: "strip [] = []"
  by (simp add: strip_def lstrip_def rstrip_def)

lemma parse_empty: "strip r = [] \<Longrightarrow> parse r = ListAll"
  by (simp add: parse_def)

lemma parse_win_empty: "strip r = [] \<Longrightarrow> parse_win r = Invalid usage"
  by (simp add: parse_win_def)

lemma parse_win_at_host:
  "strip r = CHR ''@'' # host \<Longrightarrow> CHR ''@'' \<notin> set host \<Longrightarrow> parse_win r = ListAll"
  by (simp add: parse_win_def split_no_sep strip_Nil)

text \<open>
  C3 (the empty request). For a request that is empty after stripping,
  \<open>process_request\<close> of \<open>finger_server.py\<close> returns the header line
  \<open>Available projects:\<close> followed by the full listing, one project per line;
  \<open>process_request\<close> of \<open>finger_server_win.py\<close> returns the usage text instead, and gives
  the same listing response to a request that is, after stripping, \<open>@\<close> followed by a host
  without \<open>@\<close>.
\<close>

theorem empty_request_response:
  assumes "strip r = []"
  shows "(list_projects e (plan_dir s) = Inr ps \<longrightarrow>
            process_request e now s r
              = (Inr (''Available projects:\<newline>'' @ join ''\<newline>'' ps @ ''\<newline>''), s))
       \<and> process_request_win e now s r = (Inr usage, s)
       \<and> (list_projects e (plan_dir s) = Inr ps \<and> strip r' = CHR ''@'' # host
            \<and> CHR ''@'' \<notin> set host \<longrightarrow>
            process_request_win e now s r'
              = (Inr (''Available projects:\<newline>'' @ join ''\<newline>'' ps @ ''\<newline>''), s))"
proof (intro conjI impI)
  assume "list_projects e (plan_dir s) = Inr ps"
  then show "process_request e now s r
              = (Inr (''Available projects:\<newline>'' @ join ''\<newline>'' ps @ ''\<newline>''), s)"
    using parse_empty [OF assms] by (simp add: process_request_ListAll list_response_def)
next
  show "process_request_win e now s r = (Inr usage, s)"
    using parse_win_empty [OF assms] by (simp add: process_request_win_Invalid)
next
  assume "list_projects e (plan_dir s) = Inr ps \<and> strip r' = CHR ''@'' # host
            \<and> CHR ''@'' \<notin> set host"
  then show "process_request_win e now s r'
              = (Inr (''Available projects:\<newline>'' @ join ''\<newline>'' ps @ ''\<newline>''), s)"
    using parse_win_at_host [of r' host]
    by (simp add: process_request_win_ListAll list_response_win_def)
qed

theorem empty_request_response_witness:
  "strip ''  '' = []
   \<and> list_projects demo_env (plan_dir demo_server)
       = Inr [''2024/b.project'', ''2025/empty.project'', ''2025/test.project'']
   \<and> process_request demo_env 0 demo_server ''  ''
       = (Inr ''Available projects:\<newline>2024/b.project\<newline>2025/empty.project\<newline>2025/test.project\<newline>'',
          demo_server)
   \<and> process_request_win demo_env 0 demo_server ''  '' = (Inr usage, demo_server)
   \<and> process_request_win demo_env 0 demo_server ''@host''
       = (Inr ''Available projects:\<newline>2024/b.project\<newline>2025/empty.project\<newline>2025/test.project\<newline>'',
          demo_server)"
proof -
  have h1: "strip ''  '' = []" by code_simp
  have h2: "list_projects demo_env (plan_dir demo_server)
       = Inr [''2024/b.project'', ''2025/empty.project'', ''2025/test.project'']"
    by code_simp
  have h3: "strip ''@host'' = CHR ''@'' # ''host''" by code_simp
  have h4: "CHR ''@'' \<notin> set ''host''" by simp
  from empty_request_response [OF h1, of demo_env demo_server _ 0 "''@host''" "''host''"]
    h1 h2 h3 h4
  show ?thesis by simp
qed

theorem empty_request_counterexample:
  "strip [] = []
   \<and> list_projects demo_env (plan_dir demo_server)
       = Inr [''2024/b.project'', ''2025/empty.project'', ''2025/test.project'']
   \<and> fst (process_request_win demo_env 0 demo_server []) = Inr usage
   \<and> usage \<noteq> ''Available projects:\<newline>'' @ join ''\<newline>''
         [''2024/b.project'', ''2025/empty.project'', ''2025/test.project''] @ ''\<newline>''"
  by code_simp

lemma split_year_rest:
  "CHR ''/'' \<notin> set year \<Longrightarrow>
   split CHR ''/'' (year @ CHR ''/'' # rest) = year # split CHR ''/'' rest"
  by (rule split_append)

text \<open>
  C5 (the bare form \<open>year/rest\<close>). In \<open>finger_server.py\<close>, for a request that is
  \<open>year/rest\<close> after stripping: when \<open>year\<close> is all digits and \<open>rest\<close> has no further \<open>/\<close>,
  the request selects \<open>FetchOne year rest\<close>; when \<open>year\<close> is all digits and \<open>rest\<close> has a
  further \<open>/\<close>, the split gives more than two parts and the request is invalid; when the
  left part is not all digits, the request is invalid.
\<close>

theorem bare_request_split:
  assumes "strip r = year @ ''/'' @ rest"
  shows "(isdigit year \<and> CHR ''/'' \<notin> set rest \<longrightarrow>
            parse r = FetchOne year rest
            \<and> process_request e now s r = fetch_one e now s year rest)
       \<and> (isdigit year \<and> CHR ''/'' \<in> set rest \<longrightarrow>
            parse r = Invalid invalid_request
            \<and> process_request e now s r = (Inr invalid_request, s))
       \<and> (CHR ''/'' \<notin> set year \<and> \<not> isdigit year \<longrightarrow>
            parse r = Invalid invalid_request
            \<and> process_request e now s r = (Inr invalid_request, s))"
proof (intro conjI impI)
  assume a: "isdigit year \<and> CHR ''/'' \<notin> set rest"
  then have "split CHR ''/'' (strip r) = [year, rest]"
    using assms by (simp add: split_year_rest isdigit_no_slash split_no_sep)
  with a assms show "parse r = FetchOne year rest" by (simp add: parse_def)
  then show "process_request e now s r = fetch_one e now s year rest"
    by (rule process_request_FetchOne)
next
  assume a: "isdigit year \<and> CHR ''/'' \<in> set rest"
  then have "count_list rest CHR ''/'' \<noteq> 0" by (simp add: count_list_0_iff)
  then have "length (split CHR ''/'' (strip r)) \<noteq> 2"
    using a assms by (simp add: split_year_rest isdigit_no_slash length_split)
  with assms show "parse r = Invalid invalid_request" by (simp add: parse_def)
  then show "process_request e now s r = (Inr invalid_request, s)"
    by (rule process_request_Invalid)
next
  assume a: "CHR ''/'' \<notin> set year \<and> \<not> isdigit year"
  then have "split CHR ''/'' (strip r) ! 0 = year"
    using assms by (simp add: split_year_rest)
  with a assms show "parse r = Invalid invalid_request" by (simp add: parse_def)
  then show "process_request e now s r = (Inr invalid_request, s)"
    by (rule process_request_Invalid)
qed

theorem bare_request_split_witness:
  "strip ''2025/test.project'' = ''2025'' @ ''/'' @ ''test.project''
   \<and> isdigit ''2025'' \<and> CHR ''/'' \<notin> set ''test.project''
   \<and> parse ''2025/test.project'' = FetchOne ''2025'' ''test.project''
   \<and> strip ''invalid/format'' = ''invalid'' @ ''/'' @ ''format''
   \<and> CHR ''/'' \<notin> set ''invalid'' \<and> \<not> isdigit ''invalid''
   \<and> parse ''invalid/format'' = Invalid invalid_request"
proof -
  have h1: "strip ''2025/test.project'' = ''2025'' @ ''/'' @ ''test.project''" by code_simp
  have h2: "isdigit ''2025'' \<and> CHR ''/'' \<notin> set ''test.project''" by code_simp
  have h3: "strip ''invalid/format'' = ''invalid'' @ ''/'' @ ''format''" by code_simp
  have h4: "CHR ''/'' \<notin> set ''invalid'' \<and> \<not> isdigit ''invalid''" by code_simp
  from bare_request_split [OF h1] h2
  have a: "parse ''2025/test.project'' = FetchOne ''2025'' ''test.project''" by blast
  from bare_request_split [OF h3] h4
  have b: "parse ''invalid/format'' = Invalid invalid_request" by blast
  from h1 h2 h3 h4 a b show ?thesis by blast
qed

theorem bare_request_split_counterexample:
  "strip ''2025/a/b'' = ''2025'' @ ''/'' @ ''a/b'' \<and> isdigit ''2025'' \<and> ''a/b'' \<noteq> []
   \<and> parse ''2025/a/b'' = Invalid invalid_request
   \<and> parse ''2025/a/b'' \<noteq> FetchOne ''2025'' ''a/b''
   \<and> fst (process_request demo_env 0 demo_server ''2025/a/b'') = Inr invalid_request"
  by code_simp

lemma contains_Invalid_request: "contains ''Invalid'' invalid_request"
  by code_simp

lemma contains_Invalid_format: "contains ''Invalid'' invalid_format"
  by code_simp

lemma not_contains_Invalid_usage: "\<not> contains ''Invalid'' usage"
  by code_simp

lemma invalid_format_neq_usage: "invalid_format \<noteq> usage"
  by code_simp

lemma parse_win_no_at:
  assumes "q = (if prefix ''-l '' (strip r) then strip (drop 3 (strip r)) else strip r)"
    and "CHR ''@'' \<notin> set q"
  shows "parse_win r = Invalid usage"
  using assms by (simp add: parse_win_def Let_def)

lemma parse_win_many_at:
  assumes "q = (if prefix ''-l '' (strip r) then strip (drop 3 (strip r)) else strip r)"
    and "CHR ''@'' \<in> set q" and "length (split CHR ''@'' q) \<noteq> 2"
  shows "parse_win r = Invalid invalid_format"
  using assms by (simp add: parse_win_def Let_def)

lemma parse_win_one_at:
  assumes "q = (if prefix ''-l '' (strip r) then strip (drop 3 (strip r)) else strip r)"
    and "CHR ''@'' \<in> set q" and "length (split CHR ''@'' q) = 2"
  shows "parse_win r \<noteq> Invalid invalid_format"
  using assms by (simp add: parse_win_def Let_def invalid_format_neq_usage [symmetric])

lemma parse_win_invalid_format_iff:
  assumes "q = (if prefix ''-l '' (strip r) then strip (drop 3 (strip r)) else strip r)"
  shows "(parse_win r = Invalid invalid_format) = (2 \<le> count_list q CHR ''@'')"
proof
  assume p: "parse_win r = Invalid invalid_format"
  have 1: "CHR ''@'' \<in> set q"
    using parse_win_no_at [OF assms] p invalid_format_neq_usage by auto
  then have "count_list q CHR ''@'' \<noteq> 0" by (simp add: count_list_0_iff)
  moreover have "length (split CHR ''@'' q) \<noteq> 2"
    using parse_win_one_at [OF assms 1] p by blast
  then have "count_list q CHR ''@'' \<noteq> 1" by (simp add: length_split)
  ultimately show "2 \<le> count_list q CHR ''@''" by linarith
next
  assume c: "2 \<le> count_list q CHR ''@''"
  then have "count_list q CHR ''@'' \<noteq> 0" by linarith
  then have 1: "CHR ''@'' \<in> set q" by (metis count_list_0_iff)
  from c have 2: "length (split CHR ''@'' q) \<noteq> 2" by (simp add: length_split)
  from parse_win_many_at [OF assms 1 2] show "parse_win r = Invalid invalid_format" .
qed

text \<open>
  C7 (malformed requests). In \<open>finger_server.py\<close> every malformed request gets
  the text \<open>Invalid request. Use: ...\<close>, which contains the word \<open>Invalid\<close>. In
  \<open>finger_server_win.py\<close> a malformed request gets the text
  \<open>Invalid request format. ...\<close>, which contains \<open>Invalid\<close>, exactly when the request
  (after stripping and without the prefix \<open>-l\<close>) has two or more \<open>@\<close>; every other
  malformed request, with one \<open>@\<close> or with none, gets the usage text, which does not
  contain \<open>Invalid\<close>. A request without \<open>@\<close> is malformed.
\<close>

theorem malformed_request_response:
  "(parse r = Invalid m \<longrightarrow>
      process_request e now s r = (Inr m, s) \<and> m = invalid_request \<and> contains ''Invalid'' m)
   \<and> (parse_win r = Invalid m' \<longrightarrow>
      process_request_win e now s r = (Inr m', s)
      \<and> ((m' = invalid_format \<and> contains ''Invalid'' m')
          \<or> (m' = usage \<and> \<not> contains ''Invalid'' m')))
   \<and> (let q = (if prefix ''-l '' (strip r) then strip (drop 3 (strip r)) else strip r)
      in ((parse_win r = Invalid invalid_format) = (2 \<le> count_list q CHR ''@''))
         \<and> (parse_win r = Invalid m' \<and> 2 \<le> count_list q CHR ''@'' \<longrightarrow>
              m' = invalid_format \<and> contains ''Invalid'' m')
         \<and> (parse_win r = Invalid m' \<and> count_list q CHR ''@'' < 2 \<longrightarrow>
              m' = usage \<and> \<not> contains ''Invalid'' m')
         \<and> (CHR ''@'' \<notin> set q \<longrightarrow> parse_win r = Invalid usage))"
proof -
  let ?q = "if prefix ''-l '' (strip r) then strip (drop 3 (strip r)) else strip r"
  have a: "process_request e now s r = (Inr m, s) \<and> m = invalid_request
             \<and> contains ''Invalid'' m"
    if "parse r = Invalid m"
    using that parse_cases [of r]
    by (auto simp: process_request_Invalid contains_Invalid_request)
  have b: "process_request_win e now s r = (Inr m', s)
      \<and> ((m' = invalid_format \<and> contains ''Invalid'' m')
          \<or> (m' = usage \<and> \<not> contains ''Invalid'' m'))"
    if "parse_win r = Invalid m'"
    using that parse_win_cases [of r]
    by (auto simp: process_request_win_Invalid contains_Invalid_format
        not_contains_Invalid_usage)
  have c: "(parse_win r = Invalid invalid_format) = (2 \<le> count_list ?q CHR ''@'')"
    by (rule parse_win_invalid_format_iff [OF refl])
  have d: "parse_win r = Invalid usage" if "CHR ''@'' \<notin> set ?q"
    using that by (rule parse_win_no_at [OF refl])
  have e: "m' = invalid_format \<and> contains ''Invalid'' m'"
    if "parse_win r = Invalid m' \<and> 2 \<le> count_list ?q CHR ''@''"
    using that c contains_Invalid_format by auto
  have f: "m' = usage \<and> \<not> contains ''Invalid'' m'"
    if "parse_win r = Invalid m' \<and> count_list ?q CHR ''@'' < 2"
  proof -
    from that c have "parse_win r \<noteq> Invalid invalid_format" by linarith
    with that have "m' \<noteq> invalid_format" by auto
    with b that show ?thesis by blast
  qed
  from a b c d e f show ?thesis unfolding Let_def by blast
qed

theorem malformed_request_response_witness:
  "parse ''invalid/format'' = Invalid invalid_request
   \<and> process_request demo_env 0 demo_server ''invalid/format'' = (Inr invalid_request, demo_server)
   \<and> contains ''Invalid'' invalid_request
   \<and> parse_win ''a@b@c'' = Invalid invalid_format
   \<and> process_request_win demo_env 0 demo_server ''a@b@c'' = (Inr invalid_format, demo_server)
   \<and> contains ''Invalid'' invalid_format
   \<and> parse_win ''foo@host'' = Invalid usage
   \<and> count_list ''foo@host'' CHR ''@'' < 2
   \<and> \<not> contains ''Invalid'' usage"
proof -
  have h1: "parse ''invalid/format'' = Invalid invalid_request" by code_simp
  have h2: "parse_win ''a@b@c'' = Invalid invalid_format" by code_simp
  have h3: "parse_win ''foo@host'' = Invalid usage" by code_simp
  have h4: "count_list ''foo@host'' CHR ''@'' < 2" by code_simp
  have q: "(if prefix ''-l '' (strip ''foo@host'') then strip (drop 3 (strip ''foo@host''))
            else strip ''foo@host'') = ''foo@host''"
    by code_simp
  have n: "invalid_format \<noteq> usage" by code_simp
  from malformed_request_response [of "''invalid/format''" invalid_request demo_env 0 demo_server] h1
  have a: "process_request demo_env 0 demo_server ''invalid/format'' = (Inr invalid_request, demo_server)
     \<and> contains ''Invalid'' invalid_request" by blast
  from malformed_request_response [of "''a@b@c''" _ demo_env 0 demo_server invalid_format] h2 n
  have b: "process_request_win demo_env 0 demo_server ''a@b@c'' = (Inr invalid_format, demo_server)
     \<and> contains ''Invalid'' invalid_format" by blast
  from malformed_request_response [of "''foo@host''" _ demo_env 0 demo_server usage]
  have "parse_win ''foo@host'' = Invalid usage
          \<and> count_list (if prefix ''-l '' (strip ''foo@host'')
                         then strip (drop 3 (strip ''foo@host''))
                         else strip ''foo@host'') CHR ''@'' < 2
        \<longrightarrow> \<not> contains ''Invalid'' usage"
    unfolding Let_def by blast
  with h3 h4 q have c: "\<not> contains ''Invalid'' usage" by simp
  from h1 h2 h3 h4 a b c show ?thesis by blast
qed

theorem malformed_request_counterexample:
  "parse_win ''foo'' = Invalid usage
   \<and> fst (process_request_win demo_env 0 demo_server ''foo'') = Inr usage
   \<and> parse_win ''foo@host'' = Invalid usage
   \<and> fst (process_request_win demo_env 0 demo_server ''foo@host'') = Inr usage
   \<and> \<not> contains ''Invalid'' usage"
  by code_simp

text \<open>
  C4 (the response to a fetch). Let \<open>content\<close> be what the cached read
  \<open>_read_project_file\<close> returns for the resolved path. For a request that selects
  \<open>FetchOne year project\<close> (not detailed), in both server files: when \<open>content\<close> is a
  non-empty text \<open>C\<close>, the response is exactly \<open>Project: {project}\n\n{C}\n\<close>; when
  \<open>content\<close> is \<open>None\<close>, the response is the not-found message naming project and year.
  \<open>content\<close> is the content of a cache entry that the test of the code finds fresh (the
  float difference of the clock reading and the entry's timestamp is less than the
  time-to-live), whatever the disk holds; without such an entry it is the content of the
  file when the file exists and is read, and \<open>None\<close> when the disk read fails.
\<close>

theorem fetch_one_response:
  assumes "p = fs_join e (fs_join e (plan_dir s) year) project"
    and "read_project_file e now s p = (calls, content, s')"
  shows "(parse r = FetchOne year project \<longrightarrow>
            (\<forall>C. content = Some C \<and> C \<noteq> [] \<longrightarrow>
               process_request e now s r
                 = (Inr (''Project: '' @ project @ ''\<newline>\<newline>'' @ C @ ''\<newline>''), s'))
            \<and> (content = None \<longrightarrow>
               process_request e now s r
                 = (Inr (''Project '' @ project @ '' not found in year '' @ year @ ''\<newline>''), s')))
       \<and> (parse_win r' = FetchOne year project \<longrightarrow>
            (\<forall>C. content = Some C \<and> C \<noteq> [] \<longrightarrow>
               process_request_win e now s r'
                 = (Inr (''Project: '' @ project @ ''\<newline>\<newline>'' @ C @ ''\<newline>''), s'))
            \<and> (content = None \<longrightarrow>
               process_request_win e now s r'
                 = (Inr (''Project '' @ project @ '' not found in year '' @ year @ ''\<newline>''), s')))
       \<and> (\<forall>T C. cache s p = Some (T, C) \<and> float_sub now T < dval (cache_time s) \<longrightarrow> content = Some C)
       \<and> ((\<forall>T C. cache s p = Some (T, C) \<longrightarrow> \<not> float_sub now T < dval (cache_time s)) \<longrightarrow>
            (\<forall>D. fs_exists e p = Inr True \<and> fs_read_text e p = Inr D \<longrightarrow> content = Some D)
            \<and> (fs_exists e p \<noteq> Inr True \<or> (\<exists>x. fs_read_text e p = Inl x) \<longrightarrow> content = None))"
proof -
  have f: "fetch_one e now s year project =
        (if truthy content
         then (Inr (''Project: '' @ project @ ''\<newline>\<newline>'' @ the content @ ''\<newline>''), s')
         else (Inr (''Project '' @ project @ '' not found in year '' @ year @ ''\<newline>''), s'))"
    using fetch_one_cases [of e now s year project] assms by auto
  have g: "fetch_one_win e now s False year project =
        (if truthy content
         then (Inr (''Project: '' @ project @ ''\<newline>\<newline>'' @ the content @ ''\<newline>''), s')
         else (Inr (''Project '' @ project @ '' not found in year '' @ year @ ''\<newline>''), s'))"
    using fetch_one_win_cases [of e now s year project False] assms by auto
  have a: "parse r = FetchOne year project \<longrightarrow>
            (\<forall>C. content = Some C \<and> C \<noteq> [] \<longrightarrow>
               process_request e now s r
                 = (Inr (''Project: '' @ project @ ''\<newline>\<newline>'' @ C @ ''\<newline>''), s'))
            \<and> (content = None \<longrightarrow>
               process_request e now s r
                 = (Inr (''Project '' @ project @ '' not found in year '' @ year @ ''\<newline>''), s'))"
    using f by (auto simp: process_request_FetchOne)
  have b: "parse_win r' = FetchOne year project \<longrightarrow>
            (\<forall>C. content = Some C \<and> C \<noteq> [] \<longrightarrow>
               process_request_win e now s r'
                 = (Inr (''Project: '' @ project @ ''\<newline>\<newline>'' @ C @ ''\<newline>''), s'))
            \<and> (content = None \<longrightarrow>
               process_request_win e now s r'
                 = (Inr (''Project '' @ project @ '' not found in year '' @ year @ ''\<newline>''), s'))"
    using g by (auto simp: process_request_win_FetchOne)
  have c: "\<forall>T C. cache s p = Some (T, C) \<and> float_sub now T < dval (cache_time s) \<longrightarrow> content = Some C"
    using assms(2) by (auto simp: read_fresh)
  have d: "(\<forall>T C. cache s p = Some (T, C) \<longrightarrow> \<not> float_sub now T < dval (cache_time s)) \<longrightarrow>
            (\<forall>D. fs_exists e p = Inr True \<and> fs_read_text e p = Inr D \<longrightarrow> content = Some D)
            \<and> (fs_exists e p \<noteq> Inr True \<or> (\<exists>x. fs_read_text e p = Inl x) \<longrightarrow> content = None)"
  proof (intro impI)
    assume st: "\<forall>T C. cache s p = Some (T, C) \<longrightarrow> \<not> float_sub now T < dval (cache_time s)"
    then have l: "load_from_disk e now s p = (calls, content, s')"
      using assms(2) by (simp add: read_no_fresh_entry)
    have "content = Some D" if "fs_exists e p = Inr True \<and> fs_read_text e p = Inr D" for D
      using that l by (simp add: load_from_disk_ok)
    moreover have "content = None"
      if "fs_exists e p \<noteq> Inr True \<or> (\<exists>x. fs_read_text e p = Inl x)"
      using load_from_disk_fail [OF that, of now s] l by auto
    ultimately show "(\<forall>D. fs_exists e p = Inr True \<and> fs_read_text e p = Inr D \<longrightarrow> content = Some D)
            \<and> (fs_exists e p \<noteq> Inr True \<or> (\<exists>x. fs_read_text e p = Inl x) \<longrightarrow> content = None)"
      by blast
  qed
  from a b c d show ?thesis by blast
qed

theorem fetch_one_response_witness:
  "''plans/2025/test.project'' = fs_join demo_env (fs_join demo_env (plan_dir demo_server) ''2025'') ''test.project''
   \<and> fst (snd (read_project_file demo_env 0 demo_server ''plans/2025/test.project''))
        = Some ''Test project content''
   \<and> parse ''2025/test.project'' = FetchOne ''2025'' ''test.project''
   \<and> parse_win ''2025/test.project@host'' = FetchOne ''2025'' ''test.project''
   \<and> fst (process_request demo_env 0 demo_server ''2025/test.project'')
        = Inr ''Project: test.project\<newline>\<newline>Test project content\<newline>''
   \<and> fst (process_request_win demo_env 0 demo_server ''2025/test.project@host'')
        = Inr ''Project: test.project\<newline>\<newline>Test project content\<newline>''"
proof -
  obtain calls content s' where
    rd: "read_project_file demo_env 0 demo_server ''plans/2025/test.project'' = (calls, content, s')"
    by (cases "read_project_file demo_env 0 demo_server ''plans/2025/test.project''")
  have h1: "''plans/2025/test.project''
      = fs_join demo_env (fs_join demo_env (plan_dir demo_server) ''2025'') ''test.project''"
    by code_simp
  have h2: "fst (snd (read_project_file demo_env 0 demo_server ''plans/2025/test.project''))
        = Some ''Test project content''"
    by code_simp
  with rd have c: "content = Some ''Test project content'' \<and> ''Test project content'' \<noteq> []"
    by simp
  have h3: "parse ''2025/test.project'' = FetchOne ''2025'' ''test.project''" by code_simp
  have h4: "parse_win ''2025/test.project@host'' = FetchOne ''2025'' ''test.project''"
    by code_simp
  from fetch_one_response [OF h1 rd, of "''2025/test.project''" "''2025/test.project@host''"]
    h3 h4 c
  have "process_request demo_env 0 demo_server ''2025/test.project''
        = (Inr (''Project: '' @ ''test.project'' @ ''\<newline>\<newline>'' @ ''Test project content'' @ ''\<newline>''), s')
      \<and> process_request_win demo_env 0 demo_server ''2025/test.project@host''
        = (Inr (''Project: '' @ ''test.project'' @ ''\<newline>\<newline>'' @ ''Test project content'' @ ''\<newline>''), s')"
    by blast
  then have "fst (process_request demo_env 0 demo_server ''2025/test.project'')
        = Inr ''Project: test.project\<newline>\<newline>Test project content\<newline>''
   \<and> fst (process_request_win demo_env 0 demo_server ''2025/test.project@host'')
        = Inr ''Project: test.project\<newline>\<newline>Test project content\<newline>''"
    by simp
  with h1 h2 h3 h4 show ?thesis by blast
qed

theorem fetch_one_stale_counterexample:
  "parse ''2025/test.project'' = FetchOne ''2025'' ''test.project''
   \<and> fs_join demo_env (fs_join demo_env (plan_dir cached_server) ''2025'') ''test.project''
        = ''plans/2025/test.project''
   \<and> fs_exists demo_env ''plans/2025/test.project'' = Inr True
   \<and> fs_read_text demo_env ''plans/2025/test.project'' = Inr ''Test project content''
   \<and> fst (process_request demo_env 299 cached_server ''2025/test.project'')
        = Inr ''Project: test.project\<newline>\<newline>old\<newline>''
   \<and> fst (process_request demo_env 299 cached_server ''2025/test.project'')
        \<noteq> Inr ''Project: test.project\<newline>\<newline>Test project content\<newline>''"
  by code_simp

text \<open>
  An existing file that is empty is answered with the not-found message: the test
  \<open>if content:\<close> takes the empty text for \<open>None\<close>.
\<close>

lemma fetch_one_empty_file:
  "parse ''2025/empty.project'' = FetchOne ''2025'' ''empty.project''
   \<and> fs_exists demo_env ''plans/2025/empty.project'' = Inr True
   \<and> fs_read_text demo_env ''plans/2025/empty.project'' = Inr []
   \<and> fst (process_request demo_env 0 demo_server ''2025/empty.project'')
        = Inr ''Project empty.project not found in year 2025\<newline>''
   \<and> fst (process_request_win demo_env 0 demo_server ''2025/empty.project@host'')
        = Inr ''Project empty.project not found in year 2025\<newline>''"
  by code_simp

section \<open>The connection handler\<close>






















text \<open>
  The \<open>finally\<close> block is outside the handler: on a connection that the peer has reset,
  \<open>wait_closed()\<close> raises after the response was written, and the exception leaves
  \<open>handle_client\<close>, whose \<open>try\<close> and \<open>except Exception\<close> are there to keep exceptions in.
\<close>

lemma handle_client_reset_in_finally:
  "fst (handle_client demo_env 0 demo_server reset_conn)
     = [EvRead, EvPeername,
        EvWrite ''Project: test.project\<newline>\<newline>Test project content\<newline>'',
        EvDrain, EvClose, EvWaitClosed]
   \<and> fst (snd (handle_client demo_env 0 demo_server reset_conn))
     = Inl (IsException (Exc ''[Errno 104] Connection reset by peer''))
   \<and> fst (snd (handle_client_win demo_env 0 demo_server reset_conn))
     = Inl (IsException (Exc ''[Errno 104] Connection reset by peer''))"
  by code_simp

end
